theory Spec2Isabelle
  imports Main "HOL-Library.Multiset"
begin

section \<open>Data model\<close>

text \<open>
  The dashboard script (src/unnamed/part_001) derives what a table card shows from the
  reservations of the table. A reservation is the JSON object the backend sends; its
  \<open>start_time\<close> is a string and its \<open>status\<close> is compared with string literals.
  The fields \<open>id\<close> and \<open>notes\<close> are called \<open>res_id\<close> and \<open>res_notes\<close> here:
  \<open>id\<close> is HOL's identity function and \<open>notes\<close> is a keyword.

  src/unnamed/part_000 is an earlier revision of the same script. Its
  \<open>getNextReservation\<close> and \<open>fetchTables\<close> are the same text; its
  \<open>computeCardColor\<close> interpolates a hue instead of choosing among five colours, its
  \<open>setDefaultReservationTime\<close> rounds to half hours, its \<open>renderReservationList\<close>
  renders arrived reservations too, and it has no \<open>alignToQuarter\<close>. The definitions
  below follow part_001, the revision the specification describes.
\<close>

record reservation =
  res_id :: nat
  table_id :: nat
  guest_name :: string
  phone :: string
  party_size :: nat
  start_time :: string
  res_notes :: string
  status :: string

text \<open>
  \<open>new Date(s).getTime()\<close> is the platform's date parser. It is a parameter of every
  function that calls it: \<open>None\<close> is \<open>NaN\<close> (an invalid date), \<open>Some t\<close> is the time
  value in milliseconds, which is an integer. The reference time \<open>new Date()\<close> read inside
  the functions is the parameter \<open>now\<close>, in milliseconds too.
\<close>

type_synonym date_parser = "string \<Rightarrow> int option"

section \<open>Array.prototype.sort with a comparator\<close>

text \<open>
  \<open>xs.sort(cmp)\<close> is stable (ECMAScript 2019), and \<open>cmp a b \<le> 0\<close> keeps \<open>a\<close> before
  \<open>b\<close>. For a consistent comparator the result is determined by these two facts; it is
  computed here by insertion from the right. A comparator that returns \<open>NaN\<close> counts as
  returning \<open>0\<close>.
\<close>

fun insert_cmp :: "('a \<Rightarrow> 'a \<Rightarrow> int) \<Rightarrow> 'a \<Rightarrow> 'a list \<Rightarrow> 'a list" where
  "insert_cmp cmp x [] = [x]"
| "insert_cmp cmp x (y # ys) =
     (if cmp x y \<le> 0 then x # y # ys else y # insert_cmp cmp x ys)"

definition js_sort :: "('a \<Rightarrow> 'a \<Rightarrow> int) \<Rightarrow> 'a list \<Rightarrow> 'a list" where
  "js_sort cmp xs = foldr (insert_cmp cmp) xs []"

section \<open>Next reservation and card colour\<close>

text \<open>
  \<open>.map((res) => ({ ...res, start: new Date(res.start_time) }))
   .filter((res) => !Number.isNaN(res.start.getTime()))\<close>:
  the copy of a reservation with its parsed start is the pair \<open>(res, start)\<close>; the pairs
  whose start is \<open>NaN\<close> are dropped.
\<close>

definition with_start :: "date_parser \<Rightarrow> reservation list \<Rightarrow> (reservation \<times> int) list" where
  "with_start parse rs =
     List.map_filter (\<lambda>res. map_option (Pair res) (parse (start_time res))) rs"

definition getNextReservation ::
  "date_parser \<Rightarrow> int \<Rightarrow> reservation list \<Rightarrow> (reservation \<times> int) option" where
  "getNextReservation parse now reservations =
     (let active = js_sort (\<lambda>a b. snd a - snd b)
            (with_start parse (filter (\<lambda>res. status res = ''active'') reservations))
      in case active of
           [] \<Rightarrow> None
         | first # _ \<Rightarrow>
             (case find (\<lambda>res. snd res \<ge> now) active of
                Some next \<Rightarrow> Some next
              | None \<Rightarrow> Some first))"

text \<open>
  \<open>Math.round(a / b)\<close> for integers \<open>a\<close> and \<open>b > 0\<close>: \<open>Math.round\<close> rounds to the
  nearest integer and a half towards plus infinity, which is \<open>floor (a / b + 1 / 2)\<close>.
  The script divides in double precision. Time values are integers of at most 8.64e15
  in size, and a quotient by 60000 that is not a half-integer is at least 1/60000 away
  from one; up to 2^20 in size the doubles are far closer together than that, so the
  double lies on the same side of every half-integer as the exact quotient and the
  rounded value is the same. Beyond that size the rounded value can differ by one, which
  changes none of the comparisons of \<open>computeCardColor\<close>, whose thresholds end at 1440.
\<close>

definition Math_round_div :: "int \<Rightarrow> int \<Rightarrow> int" where
  "Math_round_div a b = (2 * a + b) div (2 * b)"

record color =
  background :: string
  border :: string

definition computeCardColor :: "date_parser \<Rightarrow> int \<Rightarrow> reservation list \<Rightarrow> color option" where
  "computeCardColor parse now reservations =
     (let activeReservations = filter (\<lambda>res. status res = ''active'') reservations in
      if length activeReservations = 0 then None
      else
        (let withDates = js_sort (\<lambda>a b. snd a - snd b) (with_start parse activeReservations) in
         case withDates of
           [] \<Rightarrow> None
         | next # _ \<Rightarrow>
             (let diffMinutes = Math_round_div (snd next - now) 60000 in
              if diffMinutes < 0 then Some \<lparr>background = ''#f3e5f5'', border = ''#8e24aa''\<rparr>
              else if diffMinutes \<le> 10 then Some \<lparr>background = ''#ffebee'', border = ''#d32f2f''\<rparr>
              else if diffMinutes \<le> 30 then Some \<lparr>background = ''#ffe5e5'', border = ''#ef5350''\<rparr>
              else if diffMinutes \<le> 180 then Some \<lparr>background = ''#fff8e1'', border = ''#f9a825''\<rparr>
              else if diffMinutes \<le> 1440 then Some \<lparr>background = ''#e8f5e9'', border = ''#4caf50''\<rparr>
              else None)))"

text \<open>
  The steps shared by both functions, as the specification counts them: the active
  reservations whose start parses, each with its time value, in the order of the input.
\<close>

definition valid_active :: "date_parser \<Rightarrow> reservation list \<Rightarrow> (reservation \<times> int) list" where
  "valid_active parse rs = with_start parse (filter (\<lambda>res. status res = ''active'') rs)"

text \<open>The five colour pairs of \<open>computeCardColor\<close>, under the specification's bucket names.\<close>

definition overdue :: color where
  "overdue = \<lparr>background = ''#f3e5f5'', border = ''#8e24aa''\<rparr>"

definition imminent :: color where
  "imminent = \<lparr>background = ''#ffebee'', border = ''#d32f2f''\<rparr>"

definition near :: color where
  "near = \<lparr>background = ''#ffe5e5'', border = ''#ef5350''\<rparr>"

definition soon :: color where
  "soon = \<lparr>background = ''#fff8e1'', border = ''#f9a825''\<rparr>"

definition today :: color where
  "today = \<lparr>background = ''#e8f5e9'', border = ''#4caf50''\<rparr>"

section \<open>The reservation list of the detail view\<close>

text \<open>
  A table as the backend sends it. \<open>table.reservations || []\<close> is read everywhere, so
  the field may be absent. \<open>id\<close>, \<open>floor\<close> and \<open>name\<close> carry the prefix \<open>table_\<close>.
\<close>

record table =
  table_key :: nat
  table_floor :: string
  table_name :: string
  seats :: nat
  reservations :: "reservation list option"

text \<open>
  The children appended to the \<open>reservationList\<close> element: the hint paragraph shown for a
  table without reservations, or one item per rendered reservation.
\<close>

datatype node = Hint | Item reservation

text \<open>
  \<open>new Date(a.start_time) - new Date(b.start_time)\<close> as the comparator's result: the
  difference of the time values, and \<open>NaN\<close> when either date is invalid, which
  \<open>sort\<close> reads as 0. With an invalid date in the array the comparator is not
  consistent and ECMAScript leaves the order to the implementation; the insertion order
  of \<open>js_sort\<close> is then one of the possible results.
\<close>

definition date_minus :: "date_parser \<Rightarrow> reservation \<Rightarrow> reservation \<Rightarrow> int" where
  "date_minus parse a b =
     (case (parse (start_time a), parse (start_time b)) of
        (Some x, Some y) \<Rightarrow> x - y
      | _ \<Rightarrow> 0)"

definition renderReservationList :: "date_parser \<Rightarrow> table \<Rightarrow> node list" where
  "renderReservationList parse tbl =
     (let rs = (case reservations tbl of None \<Rightarrow> [] | Some l \<Rightarrow> l) in
      if length rs = 0 then [Hint]
      else
        (let active = filter (\<lambda>res. status res = ''active'') rs;
             others = filter (\<lambda>res. status res \<noteq> ''active'') rs;
             ordered = js_sort (\<lambda>a b. date_minus parse a b) active
                     @ js_sort (\<lambda>a b. date_minus parse b a) others
         in map Item (filter (\<lambda>reservation. status reservation \<noteq> ''arrived'') ordered)))"

text \<open>
  The time value of a reservation's start, for the statements about order; 0 stands in
  for an invalid date, which those statements exclude.
\<close>

definition start_ms :: "date_parser \<Rightarrow> reservation \<Rightarrow> int" where
  "start_ms parse r = (case parse (start_time r) of Some t \<Rightarrow> t | None \<Rightarrow> 0)"

text \<open>The reservations among the rendered children, in their order.\<close>

definition items :: "node list \<Rightarrow> reservation list" where
  "items ns = concat (map (\<lambda>n. case n of Hint \<Rightarrow> [] | Item r \<Rightarrow> [r]) ns)"

section \<open>Fetching the snapshot\<close>

text \<open>
  What \<open>await fetch('/api/tables')\<close> and \<open>await response.json()\<close> can give:
  the request is rejected (a network error), or a response arrives with a status code
  and a body. The body fails to parse, or parses to \<open>null\<close> (reading \<open>data.tables\<close>
  then throws), or parses to a value whose \<open>tables\<close> is an array of tables, as the
  interface of the backend has it, or is absent.
  \<open>response.ok\<close> is true for the status codes 200 to 299.
\<close>

datatype body = Unparseable | Null | Data "table list option"

datatype response = Rejected | Response nat body

definition ok :: "nat \<Rightarrow> bool" where
  "ok code = (200 \<le> code \<and> code \<le> 299)"

text \<open>
  \<open>appState\<close> of the dashboard and \<open>adminState\<close> of the admin page (src/static/admin.js)
  hold the snapshot in \<open>tables\<close>. \<open>fetchTables\<close> returns the state and whether it
  called \<open>alert\<close>. Every \<open>throw\<close> and every rejected \<open>await\<close> lands in the one
  \<open>catch\<close>. Rendering (\<open>renderAll\<close>, \<open>updateToolbarState\<close>, \<open>renderTableList\<close>)
  builds DOM nodes from the state and is not part of the model; the status line of the
  admin page is.
\<close>

record view_state =
  tables :: "table list"

definition fetchTables :: "bool \<Rightarrow> response \<Rightarrow> view_state \<Rightarrow> view_state \<times> bool" where
  "fetchTables showError resp appState =
     (case resp of
        Rejected \<Rightarrow> (appState, showError)
      | Response code b \<Rightarrow>
          if \<not> ok code then (appState, showError)
          else
            (case b of
               Unparseable \<Rightarrow> (appState, showError)
             | Null \<Rightarrow> (appState, showError)
             | Data ts \<Rightarrow>
                 (appState\<lparr>tables := (case ts of Some l \<Rightarrow> l | None \<Rightarrow> [])\<rparr>, False)))"

datatype status_line = Maintain_hint | Synced | Load_failed

record admin_state = view_state +
  statusText :: status_line

definition admin_fetchTables ::
  "bool \<Rightarrow> response \<Rightarrow> admin_state \<Rightarrow> admin_state \<times> bool" where
  "admin_fetchTables showMessage resp adminState =
     (case resp of
        Rejected \<Rightarrow> (adminState\<lparr>statusText := Load_failed\<rparr>, showMessage)
      | Response code b \<Rightarrow>
          if \<not> ok code then (adminState\<lparr>statusText := Load_failed\<rparr>, showMessage)
          else
            (case b of
               Unparseable \<Rightarrow> (adminState\<lparr>statusText := Load_failed\<rparr>, showMessage)
             | Null \<Rightarrow> (adminState\<lparr>statusText := Load_failed\<rparr>, showMessage)
             | Data ts \<Rightarrow>
                 (adminState\<lparr>tables := (case ts of Some l \<Rightarrow> l | None \<Rightarrow> []),
                    statusText := (if showMessage then Synced else statusText adminState)\<rparr>,
                  False)))"

section \<open>Strings and numbers of the time quantization\<close>

text \<open>
  Strings are lists of characters; the timestamps handled here are ASCII, where a
  character is one UTF-16 code unit, the unit \<open>slice\<close> and \<open>padStart\<close> count.
  \<open>s.split(c)\<close> for a one-character separator: the pieces between the separators, a
  single piece when there is none, and the empty piece for the empty string.
\<close>

fun js_split :: "char \<Rightarrow> string \<Rightarrow> string list" where
  "js_split c [] = [[]]"
| "js_split c (x # xs) =
     (if x = c then [] # js_split c xs
      else (case js_split c xs of [] \<Rightarrow> [[x]] | w # ws \<Rightarrow> (x # w) # ws))"

text \<open>The value of a decimal digit, and \<open>None\<close> for any other character.\<close>

definition digit_val :: "char \<Rightarrow> nat option" where
  "digit_val = map_of
     [(CHR ''0'', 0), (CHR ''1'', 1), (CHR ''2'', 2), (CHR ''3'', 3), (CHR ''4'', 4),
      (CHR ''5'', 5), (CHR ''6'', 6), (CHR ''7'', 7), (CHR ''8'', 8), (CHR ''9'', 9)]"

definition digit_char :: "nat \<Rightarrow> char" where
  "digit_char d =
     (if d = 0 then CHR ''0'' else if d = 1 then CHR ''1''
      else if d = 2 then CHR ''2'' else if d = 3 then CHR ''3''
      else if d = 4 then CHR ''4'' else if d = 5 then CHR ''5''
      else if d = 6 then CHR ''6'' else if d = 7 then CHR ''7''
      else if d = 8 then CHR ''8'' else CHR ''9'')"

definition is_digits :: "string \<Rightarrow> bool" where
  "is_digits s = list_all (\<lambda>c. digit_val c \<noteq> None) s"

text \<open>
  Decimal notation as arithmetic, with no bound: the natural number that a string of
  digits denotes (0 for the empty string), and the digits of a natural number.
\<close>

definition decimal_value :: "string \<Rightarrow> nat" where
  "decimal_value s =
     foldl (\<lambda>n c. 10 * n + (case digit_val c of Some d \<Rightarrow> d | None \<Rightarrow> 0)) 0 s"

fun decimal :: "nat \<Rightarrow> string" where
  "decimal n = (if n < 10 then [digit_char n] else decimal (n div 10) @ [digit_char (n mod 10)])"

declare decimal.simps [simp del]

text \<open>
  The numbers of the script are doubles. The model holds the ones it can compute with
  exactly: \<open>Safe n\<close> is the double that is the natural number \<open>n\<close>, with \<open>n\<close> at most
  \<open>Number.MAX_SAFE_INTEGER\<close>, which is 2^53 - 1;
  \<open>NaN\<close> is \<open>NaN\<close>; \<open>Other_number\<close> is any other double (negative, fractional, 2^53
  or more, infinite), of which the model says nothing.

  \<open>Number(s)\<close> for a string \<open>s\<close>:
  \<^item> digits only (or empty) with a value below 2^53: that value, which JavaScript gives
    exactly, since every natural number below 2^53 is a double;
  \<^item> otherwise, a string with a character that occurs in no numeric literal of
    JavaScript (\<open>never_numeric\<close>: the letters other than those of hexadecimal digits, of
    the prefixes \<open>0x\<close>, \<open>0o\<close>, \<open>0b\<close>, of the exponent and of \<open>Infinity\<close>, and some
    punctuation): \<open>NaN\<close>;
  \<^item> any other string (a sign, a fraction, an exponent, a prefix, white space, digits
    with a value of 2^53 or more, which JavaScript rounds): \<open>Other_number\<close>.
\<close>

datatype js_number = NaN | Safe nat | Other_number

definition MAX_SAFE_INTEGER :: nat where
  "MAX_SAFE_INTEGER = 2 ^ 53 - 1"

definition never_numeric :: "char \<Rightarrow> bool" where
  "never_numeric c = (c \<in> set ''GHJKLMNPQRSTUVWYZghjklmpqrsuvwz:;,/_'')"

definition js_Number :: "string \<Rightarrow> js_number" where
  "js_Number s =
     (if is_digits s \<and> decimal_value s \<le> MAX_SAFE_INTEGER then Safe (decimal_value s)
      else if list_ex never_numeric s then NaN
      else Other_number)"

definition padStart :: "nat \<Rightarrow> char \<Rightarrow> string \<Rightarrow> string" where
  "padStart k c s = replicate (k - length s) c @ s"

text \<open>
  \<open>alignToQuarter\<close>: \<open>!value\<close> holds for the empty string, \<open>!timePart\<close> when there
  is no second piece or it is empty; \<open>value.slice(0, 16)\<close> is \<open>take 16\<close>.

  For a minute number \<open>Safe n\<close>, \<open>Math.floor(minuteNum / 15) * 15\<close> is
  \<open>(n div 15) * 15\<close>: the quotient is below 2^50, where doubles are at most 1/8 apart,
  and its fractional part is a multiple of 1/15, at most 14/15, so the rounded quotient
  lies between the same two integers as the exact one; the product is at most \<open>n\<close> and
  so exact. \<open>String\<close> of a natural number below 2^53 is its decimal digits. For a
  minute number that is \<open>Other_number\<close> the result is \<open>None\<close>: the model does not say
  what the function returns there. Everywhere else the result is \<open>Some\<close> of the string
  returned.
\<close>

definition alignToQuarter :: "string \<Rightarrow> string option" where
  "alignToQuarter v =
     (if v = [] then Some v
      else
        (case js_split CHR ''T'' v of
           datePart # timePart # _ \<Rightarrow>
             if timePart = [] then Some v
             else
               (case js_split CHR '':'' timePart of
                  hourStr # minuteStr # _ \<Rightarrow>
                    (case js_Number minuteStr of
                       NaN \<Rightarrow> Some (take 16 v)
                     | Safe minuteNum \<Rightarrow>
                         (let normalized = (minuteNum div 15) * 15;
                              minuteText = padStart 2 CHR ''0'' (decimal normalized)
                          in Some (datePart @ ''T'' @ hourStr @ '':'' @ minuteText))
                     | Other_number \<Rightarrow> None)
                | _ \<Rightarrow> Some (take 16 v))
         | _ \<Rightarrow> Some v))"

text \<open>
  The text that \<open>alignToQuarter\<close> hands to \<open>Number\<close>, when it gets that far: the second
  piece between colons of the second piece between \<open>T\<close>s.
\<close>

definition minuteStr_of :: "string \<Rightarrow> string option" where
  "minuteStr_of v =
     (if v = [] then None
      else
        (case js_split CHR ''T'' v of
           datePart # timePart # _ \<Rightarrow>
             if timePart = [] then None
             else
               (case js_split CHR '':'' timePart of
                  hourStr # minuteStr # _ \<Rightarrow> Some minuteStr
                | _ \<Rightarrow> None)
         | _ \<Rightarrow> None))"

text \<open>
  The submit handler of the reservation form, as far as the \<open>start_time\<close> of the request
  body goes: an empty field raises an alert and nothing is sent; otherwise the field is
  replaced by \<open>alignToQuarter\<close> of it, and the request is sent with that value unless
  the party size is rejected (\<open>party_ok\<close> is the outcome of that check). The result is
  \<open>None\<close> where that of \<open>alignToQuarter\<close> is.
\<close>

datatype submission = Alerted | Sent string

definition submit_start_time :: "string \<Rightarrow> bool \<Rightarrow> submission option" where
  "submit_start_time start_time_field party_ok =
     (if start_time_field = [] then Some Alerted
      else
        (case alignToQuarter start_time_field of
           None \<Rightarrow> None
         | Some aligned \<Rightarrow> if \<not> party_ok then Some Alerted else Some (Sent aligned)))"

section \<open>The default start time\<close>

text \<open>
  A \<open>Date\<close> is its time value, the milliseconds since the epoch in UTC. Its local fields
  are those of the time value minus the zone offset, \<open>getTimezoneOffset()\<close> minutes,
  which is taken as the same before and after the quarter of an hour that
  \<open>setDefaultReservationTime\<close> adds (no daylight-saving switch in between).
\<close>

definition LocalTime :: "int \<Rightarrow> int \<Rightarrow> int" where
  "LocalTime tzOffset t = t - tzOffset * 60 * 1000"

definition UTC :: "int \<Rightarrow> int \<Rightarrow> int" where
  "UTC tzOffset t = t + tzOffset * 60 * 1000"

definition HourFromTime :: "int \<Rightarrow> int" where
  "HourFromTime t = (t div 3600000) mod 24"

definition MinFromTime :: "int \<Rightarrow> int" where
  "MinFromTime t = (t div 60000) mod 60"

definition SecFromTime :: "int \<Rightarrow> int" where
  "SecFromTime t = (t div 1000) mod 60"

definition msFromTime :: "int \<Rightarrow> int" where
  "msFromTime t = t mod 1000"

definition getMinutes :: "int \<Rightarrow> int \<Rightarrow> int" where
  "getMinutes tzOffset t = MinFromTime (LocalTime tzOffset t)"

text \<open>
  \<open>setMinutes(m)\<close> and \<open>setSeconds(s, ms)\<close> rebuild the local time from its day and
  fields with the new values; a minute of 60 or more carries into the hour and the day.
\<close>

definition setMinutes :: "int \<Rightarrow> int \<Rightarrow> int \<Rightarrow> int" where
  "setMinutes tzOffset t m =
     (let l = LocalTime tzOffset t
      in UTC tzOffset (l - MinFromTime l * 60000 + m * 60000))"

definition setSeconds :: "int \<Rightarrow> int \<Rightarrow> int \<Rightarrow> int \<Rightarrow> int" where
  "setSeconds tzOffset t s ms =
     (let l = LocalTime tzOffset t
      in UTC tzOffset (l - l mod 60000 + s * 1000 + ms))"

text \<open>
  \<open>toISOString()\<close>: the UTC fields of the time value. The calendar date of a day number
  is the platform's; \<open>isoDate\<close>, a parameter, renders it (\<open>YYYY-MM-DD\<close> for the years 0
  to 9999). \<open>pad k n\<close> prints a field of the time, a natural number below 1000, in at
  least \<open>k\<close> digits.
\<close>

definition pad :: "nat \<Rightarrow> int \<Rightarrow> string" where
  "pad k n = padStart k CHR ''0'' (decimal (nat n))"

definition toISOString :: "(int \<Rightarrow> string) \<Rightarrow> int \<Rightarrow> string" where
  "toISOString isoDate t =
     isoDate (t div 86400000) @ ''T'' @ pad 2 (HourFromTime t) @ '':'' @ pad 2 (MinFromTime t)
       @ '':'' @ pad 2 (SecFromTime t) @ ''.'' @ pad 3 (msFromTime t) @ ''Z''"

text \<open>
  \<open>setDefaultReservationTime\<close> in two parts: \<open>roundedNow\<close> is the \<open>Date\<close> named
  \<open>now\<close> after \<open>setMinutes\<close> and \<open>setSeconds\<close>; the function proper returns the text it
  assigns to \<open>input.value\<close>, the result of \<open>alignToQuarter\<close>.
\<close>

definition roundedNow :: "int \<Rightarrow> int \<Rightarrow> int" where
  "roundedNow tzOffset now =
     (let remainder = getMinutes tzOffset now mod 15;
          increment = (if remainder = 0 then 15 else 15 - remainder);
          now1 = setMinutes tzOffset now (getMinutes tzOffset now + increment)
      in setSeconds tzOffset now1 0 0)"

definition setDefaultReservationTime ::
  "(int \<Rightarrow> string) \<Rightarrow> int \<Rightarrow> int \<Rightarrow> string option" where
  "setDefaultReservationTime isoDate tzOffset now =
     (let now2 = roundedNow tzOffset now;
          local = take 16 (toISOString isoDate (now2 - tzOffset * 60 * 1000))
      in alignToQuarter local)"

section \<open>Example data\<close>

text \<open>
  The data of the examples in section 8 of the specification, at the reference time
  \<open>2024-05-01T12:00:00Z\<close>, which is 1714564800000 ms: a reservation five minutes
  ahead, one a hundred minutes back and one two days ahead. \<open>example_parse\<close> gives
  the time values of the three timestamps; any other string is an invalid date.
\<close>

definition example_reservation :: "nat \<Rightarrow> string \<Rightarrow> string \<Rightarrow> reservation" where
  "example_reservation i t st =
     \<lparr>res_id = i, table_id = 1, guest_name = ''guest'', phone = ''5550100'', party_size = 2,
      start_time = t, res_notes = [], status = st\<rparr>"

definition example_parse :: date_parser where
  "example_parse = map_of
     [(''2024-05-01T12:05:00Z'', 1714565100000),
      (''2024-05-01T10:20:00Z'', 1714558800000),
      (''2024-05-03T12:00:00Z'', 1714737600000)]"

definition example_now :: int where
  "example_now = 1714564800000"

definition example_table :: "reservation list \<Rightarrow> table" where
  "example_table rs =
     \<lparr>table_key = 1, table_floor = ''1F'', table_name = ''A1'', seats = 4, reservations = Some rs\<rparr>"

section \<open>Sorting lemmas\<close>

lemma set_insert_cmp: "set (insert_cmp cmp x xs) = insert x (set xs)"
  by (induction xs) auto

lemma insert_cmp_insort_key:
  "\<forall>y \<in> set xs. (cmp x y \<le> 0) = (f x \<le> f y) \<Longrightarrow> insert_cmp cmp x xs = insort_key f x xs"
  by (induction xs) auto

lemma js_sort_sort_key:
  "\<forall>x \<in> set xs. \<forall>y \<in> set xs. (cmp x y \<le> 0) = (f x \<le> f y) \<Longrightarrow> js_sort cmp xs = sort_key f xs"
proof (induction xs)
  case Nil
  show ?case by (simp add: js_sort_def)
next
  case (Cons a xs)
  then have ih: "js_sort cmp xs = sort_key f xs" by simp
  have "insert_cmp cmp a (sort_key f xs) = insort_key f a (sort_key f xs)"
    using Cons.prems by (intro insert_cmp_insort_key) simp
  with ih show ?case by (simp add: js_sort_def)
qed

lemma js_sort_by_start: "js_sort (\<lambda>a b. snd a - snd b) xs = sort_key snd xs"
  by (rule js_sort_sort_key) auto

lemma set_with_start:
  "set (with_start parse rs) = {(r, s). r \<in> set rs \<and> parse (start_time r) = Some s}"
  by (induction rs) (auto simp: with_start_def map_filter_simps split: option.splits)

lemma set_valid_active:
  "set (valid_active parse rs) =
     {(r, s). r \<in> set rs \<and> status r = ''active'' \<and> parse (start_time r) = Some s}"
  by (auto simp: valid_active_def set_with_start)

lemma sorted_find_least:
  "sorted (map f xs) \<Longrightarrow> find (\<lambda>x. n \<le> f x) xs = Some x \<Longrightarrow>
     x \<in> set xs \<and> n \<le> f x \<and> (\<forall>y \<in> set xs. n \<le> f y \<longrightarrow> f x \<le> f y)"
  by (induction xs) (auto split: if_splits)

lemma sorted_hd_least:
  "sorted (map f (x # xs)) \<Longrightarrow> \<forall>y \<in> set (x # xs). f x \<le> f y"
  by auto


lemma sort_key_Cons_Min:
  fixes f :: "'a \<Rightarrow> int"
  assumes "sort_key f xs = y # ys"
  shows "f y = Min (f ` set xs)"
proof -
  have "sorted (map f (y # ys))"
    using sorted_sort_key [of f xs] assms by simp
  then have le: "\<forall>z \<in> set (y # ys). f y \<le> f z"
    by (rule sorted_hd_least)
  have eq: "set (y # ys) = set xs"
    using set_sort [of f xs] assms by simp
  have "Min (f ` set xs) = f y"
  proof (rule Min_eqI)
    show "finite (f ` set xs)" by simp
    show "\<And>z. z \<in> f ` set xs \<Longrightarrow> f y \<le> z" using le eq by auto
    show "f y \<in> f ` set xs" using eq by auto
  qed
  then show ?thesis by simp
qed

lemma Math_round_div_bounds:
  "0 < b \<Longrightarrow> (2 * Math_round_div a b - 1) * b \<le> 2 * a \<and> 2 * a < (2 * Math_round_div a b + 1) * b"
proof -
  assume b: "0 < b"
  define q where "q = (2 * a + b) div (2 * b)"
  define r where "r = (2 * a + b) mod (2 * b)"
  have "2 * a + b = 2 * b * q + r" by (simp add: q_def r_def)
  moreover have "0 \<le> r" "r < 2 * b" using b by (simp_all add: r_def)
  ultimately have "(2 * q - 1) * b \<le> 2 * a \<and> 2 * a < (2 * q + 1) * b"
    by (simp add: algebra_simps)
  then show ?thesis by (simp add: Math_round_div_def q_def)
qed

section \<open>Next-reservation selection\<close>

lemma getNextReservation_sorted:
  "getNextReservation parse now rs =
     (case find (\<lambda>x. now \<le> snd x) (sort_key snd (valid_active parse rs)) of
        Some x \<Rightarrow> Some x
      | None \<Rightarrow> (case sort_key snd (valid_active parse rs) of [] \<Rightarrow> None | x # _ \<Rightarrow> Some x))"
  by (simp add: getNextReservation_def valid_active_def js_sort_by_start
      split: list.splits option.splits)

lemma sort_key_Nil_iff: "(sort_key f xs = []) = (xs = [])"
  by (metis length_0_conv length_sort)


text \<open>
  C1. For every reservation list and reference time \<open>now\<close>, \<open>getNextReservation\<close>
  keeps the active reservations whose start parses (\<open>valid_active\<close> lists exactly
  those, each with its time value), sorts them ascending by start (stably)
  and returns the first one whose start is at or after \<open>now\<close>; when none is, it returns
  the first of the sorted list, the earliest one. The result is \<open>None\<close> exactly when no
  active reservation has a start that parses. Hence a returned entry is one of the kept
  ones; when some kept entry starts at or after \<open>now\<close> the returned one does and no
  such entry starts earlier; otherwise no kept entry starts earlier than the returned one.
\<close>

theorem getNextReservation_selects:
  "set (valid_active parse rs) =
     {(r, s). r \<in> set rs \<and> status r = ''active'' \<and> parse (start_time r) = Some s}
   \<and> getNextReservation parse now rs =
     (case find (\<lambda>x. now \<le> snd x) (sort_key snd (valid_active parse rs)) of
        Some x \<Rightarrow> Some x
      | None \<Rightarrow> (case sort_key snd (valid_active parse rs) of [] \<Rightarrow> None | x # _ \<Rightarrow> Some x))
   \<and> ((getNextReservation parse now rs = None) = (valid_active parse rs = []))
   \<and> (\<forall>x. getNextReservation parse now rs = Some x \<longrightarrow>
         x \<in> set (valid_active parse rs) \<and>
         (if \<exists>y \<in> set (valid_active parse rs). now \<le> snd y
          then now \<le> snd x \<and> (\<forall>y \<in> set (valid_active parse rs). now \<le> snd y \<longrightarrow> snd x \<le> snd y)
          else \<forall>y \<in> set (valid_active parse rs). snd x \<le> snd y))"
proof -
  let ?V = "valid_active parse rs"
  let ?S = "sort_key snd ?V"
  have srt: "sorted (map snd ?S)" by (rule sorted_sort_key)
  have set_S: "set ?S = set ?V" by simp
  have none_iff: "(getNextReservation parse now rs = None) = (?V = [])"
    by (cases ?S) (auto simp: getNextReservation_sorted sort_key_Nil_iff split: option.splits)
  have sel: "x \<in> set ?V \<and>
         (if \<exists>y \<in> set ?V. now \<le> snd y
          then now \<le> snd x \<and> (\<forall>y \<in> set ?V. now \<le> snd y \<longrightarrow> snd x \<le> snd y)
          else \<forall>y \<in> set ?V. snd x \<le> snd y)"
    if res: "getNextReservation parse now rs = Some x" for x
  proof (cases "find (\<lambda>x. now \<le> snd x) ?S")
    case (Some z)
    with res have "z = x" by (simp add: getNextReservation_sorted)
    with Some have "find (\<lambda>x. now \<le> snd x) ?S = Some x" by simp
    from sorted_find_least [OF srt this] show ?thesis
      unfolding set_S by auto
  next
    case None
    then have past: "\<forall>y \<in> set ?V. \<not> now \<le> snd y"
      unfolding find_None_iff set_S by auto
    from res None obtain ys where S: "?S = x # ys"
      by (cases ?S) (auto simp: getNextReservation_sorted)
    have "\<forall>y \<in> set (x # ys). snd x \<le> snd y"
      using srt unfolding S by (rule sorted_hd_least)
    moreover have "set (x # ys) = set ?V" using set_S S by simp
    ultimately show ?thesis using past by auto
  qed
  show ?thesis
    using set_valid_active getNextReservation_sorted none_iff sel by blast
qed


theorem getNextReservation_selects_witness:
  "getNextReservation example_parse example_now
     [example_reservation 1 ''2024-05-01T10:20:00Z'' ''active'',
      example_reservation 2 ''2024-05-03T12:00:00Z'' ''active'',
      example_reservation 3 ''2024-05-01T12:05:00Z'' ''active'',
      example_reservation 4 ''2024-05-01T12:05:00Z'' ''cancelled'',
      example_reservation 5 ''tomorrow'' ''active'']
   = Some (example_reservation 3 ''2024-05-01T12:05:00Z'' ''active'', 1714565100000)
   \<and> getNextReservation example_parse example_now
     [example_reservation 1 ''2024-05-01T10:20:00Z'' ''active'',
      example_reservation 5 ''tomorrow'' ''active'']
   = Some (example_reservation 1 ''2024-05-01T10:20:00Z'' ''active'', 1714558800000)
   \<and> getNextReservation example_parse example_now
     [example_reservation 4 ''2024-05-01T12:05:00Z'' ''cancelled'',
      example_reservation 5 ''tomorrow'' ''active''] = None"
  using getNextReservation_selects [where parse = example_parse and now = example_now and rs =
     "[example_reservation 1 ''2024-05-01T10:20:00Z'' ''active'',
      example_reservation 2 ''2024-05-03T12:00:00Z'' ''active'',
      example_reservation 3 ''2024-05-01T12:05:00Z'' ''active'',
      example_reservation 4 ''2024-05-01T12:05:00Z'' ''cancelled'',
      example_reservation 5 ''tomorrow'' ''active'']"]
    getNextReservation_selects [where parse = example_parse and now = example_now and rs =
     "[example_reservation 1 ''2024-05-01T10:20:00Z'' ''active'',
      example_reservation 5 ''tomorrow'' ''active'']"]
    getNextReservation_selects [where parse = example_parse and now = example_now and rs =
     "[example_reservation 4 ''2024-05-01T12:05:00Z'' ''cancelled'',
      example_reservation 5 ''tomorrow'' ''active'']"]
  by (simp add: valid_active_def with_start_def map_filter_simps example_parse_def
      example_reservation_def example_now_def)


section \<open>Urgency colour\<close>

lemma computeCardColor_sorted:
  "computeCardColor parse now rs =
     (case sort_key snd (valid_active parse rs) of
        [] \<Rightarrow> None
      | next # _ \<Rightarrow>
          (let d = Math_round_div (snd next - now) 60000 in
           if d < 0 then Some overdue
           else if d \<le> 10 then Some imminent
           else if d \<le> 30 then Some near
           else if d \<le> 180 then Some soon
           else if d \<le> 1440 then Some today
           else None))"
proof (cases "filter (\<lambda>res. status res = ''active'') rs = []")
  case True
  then show ?thesis
    by (simp add: computeCardColor_def valid_active_def with_start_def map_filter_simps)
next
  case False
  then show ?thesis
    by (simp add: computeCardColor_def valid_active_def js_sort_by_start Let_def
        overdue_def imminent_def near_def soon_def today_def split: list.splits)
qed

text \<open>
  C2. For every reservation list and reference time \<open>now\<close>: when no active reservation
  has a start that parses, \<open>computeCardColor\<close> gives no colour. Otherwise let \<open>d\<close> be
  \<open>Math.round\<close> of (earliest start - now) / 60000, where the earliest start is the
  minimum over the active reservations whose start parses, so that
  \<open>d - 1/2 \<le> (earliest start - now) / 60000 < d + 1/2\<close>; the result is the overdue
  colour for \<open>d < 0\<close>, imminent for \<open>0 \<le> d \<le> 10\<close>, near for \<open>10 < d \<le> 30\<close>, soon for
  \<open>30 < d \<le> 180\<close>, today for \<open>180 < d \<le> 1440\<close> and no colour for \<open>d > 1440\<close>.
\<close>

theorem computeCardColor_buckets:
  "(valid_active parse rs = [] \<longrightarrow> computeCardColor parse now rs = None) \<and>
   (valid_active parse rs \<noteq> [] \<longrightarrow>
      (let d = Math_round_div (Min (snd ` set (valid_active parse rs)) - now) 60000 in
         (2 * d - 1) * 60000 \<le> 2 * (Min (snd ` set (valid_active parse rs)) - now) \<and>
         2 * (Min (snd ` set (valid_active parse rs)) - now) < (2 * d + 1) * 60000 \<and>
         (d < 0 \<longrightarrow> computeCardColor parse now rs = Some overdue) \<and>
         (0 \<le> d \<and> d \<le> 10 \<longrightarrow> computeCardColor parse now rs = Some imminent) \<and>
         (10 < d \<and> d \<le> 30 \<longrightarrow> computeCardColor parse now rs = Some near) \<and>
         (30 < d \<and> d \<le> 180 \<longrightarrow> computeCardColor parse now rs = Some soon) \<and>
         (180 < d \<and> d \<le> 1440 \<longrightarrow> computeCardColor parse now rs = Some today) \<and>
         (1440 < d \<longrightarrow> computeCardColor parse now rs = None)))"
proof (cases "sort_key snd (valid_active parse rs)")
  case Nil
  then have "valid_active parse rs = []" by (simp add: sort_key_Nil_iff)
  then show ?thesis by (simp add: computeCardColor_sorted)
next
  case (Cons x xs)
  have m: "snd x = Min (snd ` set (valid_active parse rs))"
    using Cons by (rule sort_key_Cons_Min)
  have ne: "valid_active parse rs \<noteq> []"
    using Cons by auto
  show ?thesis
    unfolding computeCardColor_sorted Cons m [symmetric]
    using ne Math_round_div_bounds [of 60000 "snd x - now"] by (simp add: Let_def)
qed

theorem computeCardColor_buckets_witness:
  "valid_active example_parse
     [example_reservation 2 ''2024-05-03T12:00:00Z'' ''active'',
      example_reservation 3 ''2024-05-01T12:05:00Z'' ''active'',
      example_reservation 5 ''tomorrow'' ''active''] \<noteq> []
   \<and> Math_round_div (Min (snd ` set (valid_active example_parse
     [example_reservation 2 ''2024-05-03T12:00:00Z'' ''active'',
      example_reservation 3 ''2024-05-01T12:05:00Z'' ''active'',
      example_reservation 5 ''tomorrow'' ''active''])) - example_now) 60000 = 5
   \<and> computeCardColor example_parse example_now
     [example_reservation 2 ''2024-05-03T12:00:00Z'' ''active'',
      example_reservation 3 ''2024-05-01T12:05:00Z'' ''active'',
      example_reservation 5 ''tomorrow'' ''active''] = Some imminent"
  using computeCardColor_buckets [of example_parse
     "[example_reservation 2 ''2024-05-03T12:00:00Z'' ''active'',
      example_reservation 3 ''2024-05-01T12:05:00Z'' ''active'',
      example_reservation 5 ''tomorrow'' ''active'']" example_now]
  by (simp add: valid_active_def with_start_def map_filter_simps example_parse_def
      example_reservation_def example_now_def Math_round_div_def Let_def)


section \<open>The worked example\<close>

text \<open>
  C3, as the specification states it, fails: for the reservations at now + 5 min,
  now - 100 min and now + 2 days, all active, \<open>getNextReservation\<close> returns the first one,
  but \<open>computeCardColor\<close> does not give the imminent colour. It reads the earliest
  active reservation, the one a hundred minutes back, and gives the overdue colour.
\<close>

theorem worked_example_counterexample:
  "\<not> (getNextReservation example_parse example_now
        [example_reservation 1 ''2024-05-01T12:05:00Z'' ''active'',
         example_reservation 2 ''2024-05-01T10:20:00Z'' ''active'',
         example_reservation 3 ''2024-05-03T12:00:00Z'' ''active'']
        = Some (example_reservation 1 ''2024-05-01T12:05:00Z'' ''active'', example_now + 5 * 60000)
      \<and> computeCardColor example_parse example_now
        [example_reservation 1 ''2024-05-01T12:05:00Z'' ''active'',
         example_reservation 2 ''2024-05-01T10:20:00Z'' ''active'',
         example_reservation 3 ''2024-05-03T12:00:00Z'' ''active'']
        = Some imminent)"
  by (simp add: computeCardColor_def js_sort_def with_start_def map_filter_simps
      example_parse_def example_reservation_def example_now_def Math_round_div_def
      imminent_def)

text \<open>
  C3, amended. For three active reservations whose starts parse to now + 5 min,
  now - 100 min and now + 2 days, in this order, \<open>getNextReservation\<close> returns the first
  one and \<open>computeCardColor\<close> gives the overdue colour (the difference in minutes of the
  earliest one is -100).
\<close>

theorem worked_example:
  assumes "status a = ''active''" and "status b = ''active''" and "status c = ''active''"
    and "parse (start_time a) = Some (now + 5 * 60000)"
    and "parse (start_time b) = Some (now - 100 * 60000)"
    and "parse (start_time c) = Some (now + 2 * 1440 * 60000)"
  shows "getNextReservation parse now [a, b, c] = Some (a, now + 5 * 60000)
       \<and> computeCardColor parse now [a, b, c] = Some overdue"
  using assms
  by (simp add: getNextReservation_def computeCardColor_def js_sort_def with_start_def
      map_filter_simps Math_round_div_def overdue_def)

theorem worked_example_witness:
  "status (example_reservation 1 ''2024-05-01T12:05:00Z'' ''active'') = ''active''
   \<and> example_parse (start_time (example_reservation 1 ''2024-05-01T12:05:00Z'' ''active''))
       = Some (example_now + 5 * 60000)
   \<and> example_parse (start_time (example_reservation 2 ''2024-05-01T10:20:00Z'' ''active''))
       = Some (example_now - 100 * 60000)
   \<and> example_parse (start_time (example_reservation 3 ''2024-05-03T12:00:00Z'' ''active''))
       = Some (example_now + 2 * 1440 * 60000)
   \<and> getNextReservation example_parse example_now
        [example_reservation 1 ''2024-05-01T12:05:00Z'' ''active'',
         example_reservation 2 ''2024-05-01T10:20:00Z'' ''active'',
         example_reservation 3 ''2024-05-03T12:00:00Z'' ''active'']
       = Some (example_reservation 1 ''2024-05-01T12:05:00Z'' ''active'', example_now + 5 * 60000)
   \<and> computeCardColor example_parse example_now
        [example_reservation 1 ''2024-05-01T12:05:00Z'' ''active'',
         example_reservation 2 ''2024-05-01T10:20:00Z'' ''active'',
         example_reservation 3 ''2024-05-03T12:00:00Z'' ''active'']
       = Some overdue"
proof -
  have st: "status (example_reservation i t ''active'') = ''active''" for i t
    by (simp add: example_reservation_def)
  have p1: "example_parse (start_time (example_reservation 1 ''2024-05-01T12:05:00Z'' ''active''))
       = Some (example_now + 5 * 60000)"
    by (simp add: example_parse_def example_reservation_def example_now_def)
  have p2: "example_parse (start_time (example_reservation 2 ''2024-05-01T10:20:00Z'' ''active''))
       = Some (example_now - 100 * 60000)"
    by (simp add: example_parse_def example_reservation_def example_now_def)
  have p3: "example_parse (start_time (example_reservation 3 ''2024-05-03T12:00:00Z'' ''active''))
       = Some (example_now + 2 * 1440 * 60000)"
    by (simp add: example_parse_def example_reservation_def example_now_def)
  show ?thesis
    using worked_example [OF st st st p1 p2 p3] st p1 p2 p3 by simp
qed

section \<open>Reservations that are not active\<close>

text \<open>
  C4. For every reservation list and every reservation \<open>r\<close> whose status is not
  \<open>active\<close> (arrived, archived and cancelled are such), \<open>getNextReservation\<close> and
  \<open>computeCardColor\<close> give the same result on the list with \<open>r\<close> inserted at any
  place as on the list without it; on the list that holds \<open>r\<close> alone both give none.
\<close>

theorem not_active_inert:
  assumes "status r \<noteq> ''active''"
  shows "getNextReservation parse now (xs @ r # ys) = getNextReservation parse now (xs @ ys)
       \<and> computeCardColor parse now (xs @ r # ys) = computeCardColor parse now (xs @ ys)
       \<and> getNextReservation parse now [r] = None
       \<and> computeCardColor parse now [r] = None"
  using assms
  by (simp add: getNextReservation_def computeCardColor_def js_sort_def with_start_def
      map_filter_simps)

theorem not_active_inert_witness:
  "status (example_reservation 4 ''2024-05-01T12:05:00Z'' ''cancelled'') \<noteq> ''active''
   \<and> getNextReservation example_parse example_now
        [example_reservation 4 ''2024-05-01T12:05:00Z'' ''cancelled''] = None
   \<and> computeCardColor example_parse example_now
        [example_reservation 4 ''2024-05-01T12:05:00Z'' ''cancelled''] = None
   \<and> computeCardColor example_parse example_now
        [example_reservation 3 ''2024-05-03T12:00:00Z'' ''active'',
         example_reservation 4 ''2024-05-01T12:05:00Z'' ''cancelled'']
     = computeCardColor example_parse example_now
        [example_reservation 3 ''2024-05-03T12:00:00Z'' ''active'']"
proof -
  have st: "status (example_reservation 4 ''2024-05-01T12:05:00Z'' ''cancelled'') \<noteq> ''active''"
    by (simp add: example_reservation_def)
  show ?thesis
    using st not_active_inert [OF st, of example_parse example_now
        "[example_reservation 3 ''2024-05-03T12:00:00Z'' ''active'']" "[]"]
    by simp
qed


section \<open>Order of the rendered reservation list\<close>

lemma mset_insert_cmp: "mset (insert_cmp cmp x xs) = add_mset x (mset xs)"
  by (induction xs) auto

lemma mset_js_sort: "mset (js_sort cmp xs) = mset xs"
  by (induction xs) (auto simp: js_sort_def mset_insert_cmp)

lemma set_js_sort: "set (js_sort cmp xs) = set xs"
  using mset_js_sort [of cmp xs] by (metis set_mset_mset)

lemma js_sort_ascending:
  assumes "\<forall>r \<in> set xs. parse (start_time r) \<noteq> None"
  shows "js_sort (\<lambda>a b. date_minus parse a b) xs = sort_key (start_ms parse) xs"
proof (rule js_sort_sort_key, intro ballI)
  fix x y
  assume "x \<in> set xs" and "y \<in> set xs"
  with assms have "parse (start_time x) \<noteq> None" and "parse (start_time y) \<noteq> None"
    by simp_all
  then obtain s t where "parse (start_time x) = Some s" and "parse (start_time y) = Some t"
    by blast
  then show "(date_minus parse x y \<le> 0) = (start_ms parse x \<le> start_ms parse y)"
    by (simp add: date_minus_def start_ms_def)
qed

lemma js_sort_descending:
  assumes "\<forall>r \<in> set xs. parse (start_time r) \<noteq> None"
  shows "js_sort (\<lambda>a b. date_minus parse b a) xs = sort_key (\<lambda>r. - start_ms parse r) xs"
proof (rule js_sort_sort_key, intro ballI)
  fix x y
  assume "x \<in> set xs" and "y \<in> set xs"
  with assms have "parse (start_time x) \<noteq> None" and "parse (start_time y) \<noteq> None"
    by simp_all
  then obtain s t where "parse (start_time x) = Some s" and "parse (start_time y) = Some t"
    by blast
  then show "(date_minus parse y x \<le> 0) = (- start_ms parse x \<le> - start_ms parse y)"
    by (simp add: date_minus_def start_ms_def)
qed

lemma items_map_Item: "items (map Item xs) = xs"
  by (induction xs) (auto simp: items_def)

lemma items_append: "items (xs @ ys) = items xs @ items ys"
  by (simp add: items_def)

lemma items_render:
  "items (renderReservationList parse tbl) =
     filter (\<lambda>r. status r \<noteq> ''arrived'')
       (js_sort (\<lambda>a b. date_minus parse a b)
          (filter (\<lambda>r. status r = ''active'') (case reservations tbl of None \<Rightarrow> [] | Some l \<Rightarrow> l)))
   @ filter (\<lambda>r. status r \<noteq> ''arrived'')
       (js_sort (\<lambda>a b. date_minus parse b a)
          (filter (\<lambda>r. status r \<noteq> ''active'') (case reservations tbl of None \<Rightarrow> [] | Some l \<Rightarrow> l)))"
proof (cases "(case reservations tbl of None \<Rightarrow> [] | Some l \<Rightarrow> l) = []")
  case True
  then show ?thesis
    by (simp add: renderReservationList_def items_def js_sort_def)
next
  case False
  then show ?thesis
    by (simp add: renderReservationList_def Let_def items_map_Item items_append)
qed

lemma descending_sort_key:
  fixes f :: "'a \<Rightarrow> int"
  shows "sorted_wrt (\<lambda>a b. f b \<le> f a) (sort_key (\<lambda>r. - f r) xs)"
  using sorted_sort_key [of "\<lambda>r. - f r" xs] by (simp add: sorted_wrt_map)


lemma split_after_partition:
  assumes "\<forall>a \<in> set A. P a" and "\<forall>b \<in> set B. \<not> P b"
    and "A @ B = us @ r # vs" and "\<not> P r"
  shows "\<forall>r' \<in> set vs. \<not> P r'"
proof -
  from assms(3) consider ws where "A = us @ r # ws" | ws where "B = ws @ r # vs"
    by (auto simp: append_eq_append_conv2 append_eq_Cons_conv Cons_eq_append_conv)
  then show ?thesis
  proof cases
    case 1
    with assms(1,4) show ?thesis by simp
  next
    case 2
    with assms(2) show ?thesis by simp
  qed
qed

lemma items_render_valid:
  assumes "\<forall>r \<in> set (case reservations tbl of None \<Rightarrow> [] | Some l \<Rightarrow> l). parse (start_time r) \<noteq> None"
  shows "items (renderReservationList parse tbl) =
     sort_key (start_ms parse)
       (filter (\<lambda>r. status r = ''active'') (case reservations tbl of None \<Rightarrow> [] | Some l \<Rightarrow> l))
   @ sort_key (\<lambda>r. - start_ms parse r)
       (filter (\<lambda>r. status r \<noteq> ''active'' \<and> status r \<noteq> ''arrived'')
          (case reservations tbl of None \<Rightarrow> [] | Some l \<Rightarrow> l))"
proof -
  let ?rs = "case reservations tbl of None \<Rightarrow> [] | Some l \<Rightarrow> l"
  have a: "js_sort (\<lambda>a b. date_minus parse a b) (filter (\<lambda>r. status r = ''active'') ?rs)
      = sort_key (start_ms parse) (filter (\<lambda>r. status r = ''active'') ?rs)"
    using assms by (intro js_sort_ascending) simp
  have b: "js_sort (\<lambda>a b. date_minus parse b a) (filter (\<lambda>r. status r \<noteq> ''active'') ?rs)
      = sort_key (\<lambda>r. - start_ms parse r) (filter (\<lambda>r. status r \<noteq> ''active'') ?rs)"
    using assms by (intro js_sort_descending) simp
  have c: "filter (\<lambda>r. status r \<noteq> ''arrived'') (filter (\<lambda>r. status r = ''active'') ?rs)
      = filter (\<lambda>r. status r = ''active'') ?rs"
    by (subst filter_id_conv) auto
  have d: "filter (\<lambda>r. status r \<noteq> ''arrived'') (filter (\<lambda>r. status r \<noteq> ''active'') ?rs)
      = filter (\<lambda>r. status r \<noteq> ''active'' \<and> status r \<noteq> ''arrived'') ?rs"
    by (simp add: conj_commute)
  show ?thesis
    unfolding items_render a b filter_sort c d ..
qed

text \<open>
  C5, as the specification states it, fails: the rendered sequence is not the active
  reservations followed by all the others. A table whose only reservation has arrived
  renders no reservation at all.
\<close>

theorem renderReservationList_order_counterexample:
  "items (renderReservationList example_parse
       (example_table [example_reservation 6 ''2024-05-01T10:20:00Z'' ''arrived'']))
   \<noteq> sort_key (start_ms example_parse)
       (filter (\<lambda>r. status r = ''active'')
          [example_reservation 6 ''2024-05-01T10:20:00Z'' ''arrived''])
     @ sort_key (\<lambda>r. - start_ms example_parse r)
       (filter (\<lambda>r. status r \<noteq> ''active'')
          [example_reservation 6 ''2024-05-01T10:20:00Z'' ''arrived''])"
  by (simp add: renderReservationList_def items_def js_sort_def example_table_def
      example_reservation_def)

text \<open>
  C5, amended. For every table, with \<open>rs\<close> its reservations: the rendered reservations
  are the reservations of \<open>rs\<close> that have not arrived, each once, and no reservation that
  is not active is rendered before an active one. When every start in \<open>rs\<close> parses, the
  rendered sequence is exactly the active reservations sorted ascending by start followed
  by the reservations that are neither active nor arrived sorted descending by start, and
  both sorts are stable: among reservations with the same start the order of \<open>rs\<close> is kept.
\<close>

theorem renderReservationList_order:
  fixes parse :: date_parser and tbl :: table
  defines "rs \<equiv> (case reservations tbl of None \<Rightarrow> [] | Some l \<Rightarrow> l)"
  defines "shown \<equiv> items (renderReservationList parse tbl)"
  defines "A \<equiv> sort_key (start_ms parse) (filter (\<lambda>r. status r = ''active'') rs)"
  defines "B \<equiv> sort_key (\<lambda>r. - start_ms parse r)
                 (filter (\<lambda>r. status r \<noteq> ''active'' \<and> status r \<noteq> ''arrived'') rs)"
  shows "mset shown = mset (filter (\<lambda>r. status r \<noteq> ''arrived'') rs)
    \<and> (\<forall>us r vs. shown = us @ r # vs \<longrightarrow> status r \<noteq> ''active'' \<longrightarrow>
          (\<forall>r' \<in> set vs. status r' \<noteq> ''active''))
    \<and> ((\<forall>r \<in> set rs. parse (start_time r) \<noteq> None) \<longrightarrow>
          shown = A @ B
        \<and> sorted (map (start_ms parse) A)
        \<and> sorted_wrt (\<lambda>a b. start_ms parse b \<le> start_ms parse a) B
        \<and> (\<forall>k. filter (\<lambda>r. start_ms parse r = k) A
               = filter (\<lambda>r. start_ms parse r = k) (filter (\<lambda>r. status r = ''active'') rs))
        \<and> (\<forall>k. filter (\<lambda>r. start_ms parse r = k) B
               = filter (\<lambda>r. start_ms parse r = k)
                   (filter (\<lambda>r. status r \<noteq> ''active'' \<and> status r \<noteq> ''arrived'') rs)))"
proof (intro conjI impI allI)
  let ?A' = "filter (\<lambda>r. status r \<noteq> ''arrived'')
       (js_sort (\<lambda>a b. date_minus parse a b) (filter (\<lambda>r. status r = ''active'') rs))"
  let ?B' = "filter (\<lambda>r. status r \<noteq> ''arrived'')
       (js_sort (\<lambda>a b. date_minus parse b a) (filter (\<lambda>r. status r \<noteq> ''active'') rs))"
  have shown: "shown = ?A' @ ?B'"
    unfolding shown_def rs_def by (rule items_render)
  have part: "filter_mset (\<lambda>r. status r = ''active'') (mset rs)
      + filter_mset (\<lambda>r. status r \<noteq> ''active'') (mset rs) = mset rs"
    using multiset_partition [of "mset rs" "\<lambda>r. status r = ''active''"] by simp
  have "mset shown = filter_mset (\<lambda>r. status r \<noteq> ''arrived'')
      (filter_mset (\<lambda>r. status r = ''active'') (mset rs)
       + filter_mset (\<lambda>r. status r \<noteq> ''active'') (mset rs))"
    unfolding shown by (simp only: mset_append mset_filter mset_js_sort filter_union_mset)
  also have "\<dots> = filter_mset (\<lambda>r. status r \<noteq> ''arrived'') (mset rs)"
    by (simp only: part)
  finally show "mset shown = mset (filter (\<lambda>r. status r \<noteq> ''arrived'') rs)"
    by simp
  show "\<forall>r' \<in> set vs. status r' \<noteq> ''active''"
    if "shown = us @ r # vs" and "status r \<noteq> ''active''" for us r vs
  proof (rule split_after_partition [where P = "\<lambda>r. status r = ''active''"])
    show "\<forall>a \<in> set ?A'. status a = ''active''" by (simp add: set_js_sort)
    show "\<forall>b \<in> set ?B'. status b \<noteq> ''active''" by (simp add: set_js_sort)
    show "?A' @ ?B' = us @ r # vs" using that(1) shown by simp
    show "status r \<noteq> ''active''" by (rule that(2))
  qed
  show "shown = A @ B" if "\<forall>r \<in> set rs. parse (start_time r) \<noteq> None"
    using that unfolding shown_def A_def B_def rs_def by (rule items_render_valid)
  show "sorted (map (start_ms parse) A)"
    unfolding A_def by (rule sorted_sort_key)
  show "sorted_wrt (\<lambda>a b. start_ms parse b \<le> start_ms parse a) B"
    unfolding B_def by (rule descending_sort_key)
  show "filter (\<lambda>r. start_ms parse r = k) A
      = filter (\<lambda>r. start_ms parse r = k) (filter (\<lambda>r. status r = ''active'') rs)" for k
    unfolding A_def by (rule sort_key_stable)
  show "filter (\<lambda>r. start_ms parse r = k) B
      = filter (\<lambda>r. start_ms parse r = k)
          (filter (\<lambda>r. status r \<noteq> ''active'' \<and> status r \<noteq> ''arrived'') rs)" for k
    unfolding B_def
    using sort_key_stable [of "\<lambda>r. - start_ms parse r" "- k"] by simp
qed


theorem renderReservationList_order_witness:
  "map (\<lambda>r. example_parse (start_time r))
       [example_reservation 1 ''2024-05-01T12:05:00Z'' ''active'',
        example_reservation 2 ''2024-05-01T10:20:00Z'' ''cancelled'',
        example_reservation 3 ''2024-05-01T10:20:00Z'' ''active'',
        example_reservation 4 ''2024-05-01T12:05:00Z'' ''arrived'',
        example_reservation 5 ''2024-05-03T12:00:00Z'' ''archived'',
        example_reservation 6 ''2024-05-01T12:05:00Z'' ''active'']
     = [Some 1714565100000, Some 1714558800000, Some 1714558800000, Some 1714565100000,
        Some 1714737600000, Some 1714565100000]
   \<and> items (renderReservationList example_parse
        (example_table
           [example_reservation 1 ''2024-05-01T12:05:00Z'' ''active'',
            example_reservation 2 ''2024-05-01T10:20:00Z'' ''cancelled'',
            example_reservation 3 ''2024-05-01T10:20:00Z'' ''active'',
            example_reservation 4 ''2024-05-01T12:05:00Z'' ''arrived'',
            example_reservation 5 ''2024-05-03T12:00:00Z'' ''archived'',
            example_reservation 6 ''2024-05-01T12:05:00Z'' ''active'']))
     = [example_reservation 3 ''2024-05-01T10:20:00Z'' ''active'',
        example_reservation 1 ''2024-05-01T12:05:00Z'' ''active'',
        example_reservation 6 ''2024-05-01T12:05:00Z'' ''active'',
        example_reservation 5 ''2024-05-03T12:00:00Z'' ''archived'',
        example_reservation 2 ''2024-05-01T10:20:00Z'' ''cancelled'']"
  using renderReservationList_order [where parse = example_parse and tbl = "example_table
           [example_reservation 1 ''2024-05-01T12:05:00Z'' ''active'',
            example_reservation 2 ''2024-05-01T10:20:00Z'' ''cancelled'',
            example_reservation 3 ''2024-05-01T10:20:00Z'' ''active'',
            example_reservation 4 ''2024-05-01T12:05:00Z'' ''arrived'',
            example_reservation 5 ''2024-05-03T12:00:00Z'' ''archived'',
            example_reservation 6 ''2024-05-01T12:05:00Z'' ''active'']"]
  by (simp add: example_table_def example_reservation_def example_parse_def start_ms_def)

text \<open>
  C9. For every table, no rendered item of the detail view's reservation list is a
  reservation whose status is \<open>arrived\<close>: the loop returns before it appends the node.
\<close>

theorem rendered_never_arrived:
  "Item r \<in> set (renderReservationList parse tbl) \<Longrightarrow> status r \<noteq> ''arrived''"
  by (auto simp: renderReservationList_def Let_def split: if_splits)

theorem rendered_never_arrived_witness:
  "Item (example_reservation 2 ''2024-05-01T10:20:00Z'' ''cancelled'')
     \<in> set (renderReservationList example_parse
        (example_table
           [example_reservation 2 ''2024-05-01T10:20:00Z'' ''cancelled'',
            example_reservation 4 ''2024-05-01T12:05:00Z'' ''arrived'']))
   \<and> status (example_reservation 2 ''2024-05-01T10:20:00Z'' ''cancelled'') \<noteq> ''arrived''
   \<and> renderReservationList example_parse
        (example_table
           [example_reservation 2 ''2024-05-01T10:20:00Z'' ''cancelled'',
            example_reservation 4 ''2024-05-01T12:05:00Z'' ''arrived''])
     = [Item (example_reservation 2 ''2024-05-01T10:20:00Z'' ''cancelled'')]"
proof -
  have r: "renderReservationList example_parse
        (example_table
           [example_reservation 2 ''2024-05-01T10:20:00Z'' ''cancelled'',
            example_reservation 4 ''2024-05-01T12:05:00Z'' ''arrived''])
     = [Item (example_reservation 2 ''2024-05-01T10:20:00Z'' ''cancelled'')]"
    by (simp add: renderReservationList_def js_sort_def example_table_def
        example_reservation_def)
  have m: "Item (example_reservation 2 ''2024-05-01T10:20:00Z'' ''cancelled'')
     \<in> set (renderReservationList example_parse
        (example_table
           [example_reservation 2 ''2024-05-01T10:20:00Z'' ''cancelled'',
            example_reservation 4 ''2024-05-01T12:05:00Z'' ''arrived'']))"
    unfolding r by simp
  show ?thesis
    using rendered_never_arrived [OF m] m r by simp
qed

section \<open>Atomicity of the snapshot fetch\<close>

text \<open>
  C8. For every failure of the snapshot fetch (the request is rejected, the status is
  not 2xx, the body does not parse as JSON, or it parses to \<open>null\<close>), the dashboard's
  state is exactly what it was before, and the admin page's \<open>tables\<close> are what they
  were. In both, \<open>tables\<close> changes only when a 2xx response with a parsed body arrived,
  and it is then the \<open>tables\<close> of that body, or the empty list when the body has none.
\<close>

theorem fetchTables_atomic:
  "((resp = Rejected \<or> (\<exists>code b. resp = Response code b \<and> (\<not> ok code \<or> b = Unparseable \<or> b = Null)))
      \<longrightarrow> fst (fetchTables showError resp appState) = appState
        \<and> tables (fst (admin_fetchTables showMessage resp adminState)) = tables adminState)
   \<and> (tables (fst (fetchTables showError resp appState)) \<noteq> tables appState
      \<or> tables (fst (admin_fetchTables showMessage resp adminState)) \<noteq> tables adminState
      \<longrightarrow> (\<exists>code ts. resp = Response code (Data ts) \<and> ok code
            \<and> tables (fst (fetchTables showError resp appState)) = (case ts of Some l \<Rightarrow> l | None \<Rightarrow> [])
            \<and> tables (fst (admin_fetchTables showMessage resp adminState))
                = (case ts of Some l \<Rightarrow> l | None \<Rightarrow> [])))"
  by (auto simp: fetchTables_def admin_fetchTables_def split: response.splits body.splits)

theorem fetchTables_atomic_witness:
  "\<not> ok 500
   \<and> fst (fetchTables True (Response 500 (Data (Some []))) \<lparr>tables = [example_table []]\<rparr>)
       = \<lparr>tables = [example_table []]\<rparr>
   \<and> fst (fetchTables True (Response 200 Unparseable) \<lparr>tables = [example_table []]\<rparr>)
       = \<lparr>tables = [example_table []]\<rparr>
   \<and> tables (fst (admin_fetchTables False (Response 404 Null)
        \<lparr>tables = [example_table []], statusText = Maintain_hint\<rparr>)) = [example_table []]
   \<and> tables (fst (fetchTables True (Response 200 (Data None)) \<lparr>tables = [example_table []]\<rparr>))
       \<noteq> tables \<lparr>tables = [example_table []]\<rparr>
   \<and> ok 200
   \<and> tables (fst (fetchTables True (Response 200 (Data None)) \<lparr>tables = [example_table []]\<rparr>))
       = []"
  using fetchTables_atomic [of "Response 500 (Data (Some []))" True "\<lparr>tables = [example_table []]\<rparr>"
      False "\<lparr>tables = [example_table []], statusText = Maintain_hint\<rparr>"]
    fetchTables_atomic [of "Response 200 Unparseable" True "\<lparr>tables = [example_table []]\<rparr>"
      False "\<lparr>tables = [example_table []], statusText = Maintain_hint\<rparr>"]
    fetchTables_atomic [of "Response 404 Null" True "\<lparr>tables = [example_table []]\<rparr>"
      False "\<lparr>tables = [example_table []], statusText = Maintain_hint\<rparr>"]
    fetchTables_atomic [of "Response 200 (Data None)" True "\<lparr>tables = [example_table []]\<rparr>"
      False "\<lparr>tables = [example_table []], statusText = Maintain_hint\<rparr>"]
  by (simp add: ok_def fetchTables_def)

section \<open>Digits, pieces and the shape of alignToQuarter\<close>

lemma digit_val_digit_char: "d < 10 \<Longrightarrow> digit_val (digit_char d) = Some d"
  by (auto simp: digit_val_def digit_char_def)

lemma digit_val_T: "digit_val CHR ''T'' = None"
  by (simp add: digit_val_def)

lemma digit_val_colon: "digit_val CHR '':'' = None"
  by (simp add: digit_val_def)

lemma is_digits_no_T: "is_digits s \<Longrightarrow> x \<in> set s \<Longrightarrow> x \<noteq> CHR ''T''"
  using digit_val_T by (auto simp: is_digits_def list_all_iff)

lemma is_digits_no_colon: "is_digits s \<Longrightarrow> x \<in> set s \<Longrightarrow> x \<noteq> CHR '':''"
  using digit_val_colon by (auto simp: is_digits_def list_all_iff)

lemma is_digits_append: "is_digits (xs @ ys) = (is_digits xs \<and> is_digits ys)"
  by (simp add: is_digits_def)

lemma is_digits_take: "is_digits s \<Longrightarrow> is_digits (take k s)"
  by (auto simp: is_digits_def list_all_iff dest: in_set_takeD)

lemma is_digits_decimal: "is_digits (decimal n)"
proof (induction n rule: decimal.induct)
  case (1 n)
  show ?case
  proof (cases "n < 10")
    case True
    then show ?thesis
      by (subst decimal.simps) (simp add: is_digits_def digit_val_digit_char)
  next
    case False
    then have "is_digits (decimal (n div 10))" by (rule "1.IH")
    moreover have "digit_val (digit_char (n mod 10)) = Some (n mod 10)"
      by (rule digit_val_digit_char) simp
    ultimately show ?thesis
      using False by (subst decimal.simps) (simp add: is_digits_def)
  qed
qed

lemma is_digits_zeros: "is_digits (replicate k CHR ''0'')"
  by (induction k) (simp_all add: is_digits_def digit_val_def)

lemma is_digits_padStart: "is_digits s \<Longrightarrow> is_digits (padStart k CHR ''0'' s)"
  by (simp add: padStart_def is_digits_append is_digits_zeros)

lemma decimal_value_snoc:
  "decimal_value (xs @ [c])
     = 10 * decimal_value xs + (case digit_val c of Some d \<Rightarrow> d | None \<Rightarrow> 0)"
  by (simp add: decimal_value_def)

lemma decimal_value_decimal: "decimal_value (decimal n) = n"
proof (induction n rule: decimal.induct)
  case (1 n)
  show ?case
  proof (cases "n < 10")
    case True
    then show ?thesis
      by (subst decimal.simps) (simp add: decimal_value_def digit_val_digit_char)
  next
    case False
    then have ih: "decimal_value (decimal (n div 10)) = n div 10" by (rule "1.IH")
    have d: "digit_val (digit_char (n mod 10)) = Some (n mod 10)"
      by (rule digit_val_digit_char) simp
    from False have "decimal n = decimal (n div 10) @ [digit_char (n mod 10)]"
      by (subst decimal.simps) simp
    then show ?thesis by (simp add: decimal_value_snoc ih d)
  qed
qed

lemma decimal_value_zeros: "decimal_value (replicate k CHR ''0'' @ s) = decimal_value s"
proof -
  have "foldl (\<lambda>n c. 10 * n + (case digit_val c of Some d \<Rightarrow> d | None \<Rightarrow> 0)) 0
     (replicate k CHR ''0'') = (0::nat)"
    by (induction k) (simp_all add: digit_val_def)
  then show ?thesis by (simp add: decimal_value_def)
qed

lemma digit_at_most_9: "(case digit_val c of Some d \<Rightarrow> d | None \<Rightarrow> 0) \<le> (9::nat)"
  by (simp add: digit_val_def)

lemma decimal_value_bound: "decimal_value s < 10 ^ length s"
proof (induction s rule: rev_induct)
  case Nil
  show ?case by (simp add: decimal_value_def)
next
  case (snoc c s)
  have "decimal_value (s @ [c]) \<le> 10 * decimal_value s + 9"
    using digit_at_most_9 [of c] by (simp add: decimal_value_snoc)
  also have "\<dots> < 10 * 10 ^ length s" using snoc.IH by simp
  finally show ?case by simp
qed

lemma decimal_value_short: "length s \<le> 15 \<Longrightarrow> decimal_value s \<le> MAX_SAFE_INTEGER"
proof -
  assume "length s \<le> 15"
  then have "(10::nat) ^ length s \<le> 10 ^ 15"
    by (intro power_increasing) simp_all
  with decimal_value_bound [of s] have "decimal_value s < 10 ^ 15" by linarith
  also have "(10::nat) ^ 15 \<le> MAX_SAFE_INTEGER" by (simp add: MAX_SAFE_INTEGER_def)
  finally show ?thesis by simp
qed

lemma js_Number_Safe:
  "(js_Number m = Safe n) = (is_digits m \<and> decimal_value m = n \<and> n \<le> MAX_SAFE_INTEGER)"
  by (auto simp: js_Number_def)

lemma js_Number_padStart:
  assumes "n \<le> MAX_SAFE_INTEGER"
  shows "js_Number (padStart k CHR ''0'' (decimal n)) = Safe n"
proof -
  have "is_digits (padStart k CHR ''0'' (decimal n))"
    by (rule is_digits_padStart) (rule is_digits_decimal)
  moreover have "decimal_value (padStart k CHR ''0'' (decimal n)) = n"
    by (simp add: padStart_def decimal_value_zeros decimal_value_decimal)
  ultimately show ?thesis using assms by (simp add: js_Number_Safe)
qed

lemma js_split_unfold:
  "js_split c v =
     takeWhile (\<lambda>x. x \<noteq> c) v
       # (case dropWhile (\<lambda>x. x \<noteq> c) v of [] \<Rightarrow> [] | _ # r \<Rightarrow> js_split c r)"
proof (induction v)
  case Nil
  show ?case by simp
next
  case (Cons x xs)
  show ?case
  proof (cases "x = c")
    case True
    then show ?thesis by simp
  next
    case False
    have "js_split c (x # xs) = (case js_split c xs of [] \<Rightarrow> [[x]] | w # ws \<Rightarrow> (x # w) # ws)"
      using False by simp
    also have "\<dots> = (x # takeWhile (\<lambda>x. x \<noteq> c) xs)
        # (case dropWhile (\<lambda>x. x \<noteq> c) xs of [] \<Rightarrow> [] | _ # r \<Rightarrow> js_split c r)"
      by (subst Cons.IH) simp
    finally show ?thesis using False by simp
  qed
qed

lemma js_split_two:
  "(case js_split c v of d # t # ws \<Rightarrow> f d t | _ \<Rightarrow> g) =
     (case dropWhile (\<lambda>x. x \<noteq> c) v of
        [] \<Rightarrow> g
      | x # u \<Rightarrow> f (takeWhile (\<lambda>x. x \<noteq> c) v) (takeWhile (\<lambda>x. x \<noteq> c) u))"
proof (cases "dropWhile (\<lambda>x. x \<noteq> c) v")
  case Nil
  have "js_split c v = [takeWhile (\<lambda>x. x \<noteq> c) v]"
    by (subst js_split_unfold) (simp only: Nil list.case)
  then show ?thesis by (simp only: Nil list.case)
next
  case (Cons x u)
  have "js_split c v = takeWhile (\<lambda>x. x \<noteq> c) v # js_split c u"
    by (subst js_split_unfold) (simp only: Cons list.case)
  also have "js_split c u = takeWhile (\<lambda>x. x \<noteq> c) u
       # (case dropWhile (\<lambda>x. x \<noteq> c) u of [] \<Rightarrow> [] | _ # r \<Rightarrow> js_split c r)"
    by (rule js_split_unfold)
  finally show ?thesis by (simp only: Cons list.case)
qed

lemma alignToQuarter_shape:
  "alignToQuarter v =
     (if v = [] then Some v
      else
        (case dropWhile (\<lambda>x. x \<noteq> CHR ''T'') v of
           [] \<Rightarrow> Some v
         | x # u \<Rightarrow>
             if takeWhile (\<lambda>x. x \<noteq> CHR ''T'') u = [] then Some v
             else
               (case dropWhile (\<lambda>x. x \<noteq> CHR '':'') (takeWhile (\<lambda>x. x \<noteq> CHR ''T'') u) of
                  [] \<Rightarrow> Some (take 16 v)
                | y # w \<Rightarrow>
                    (case js_Number (takeWhile (\<lambda>x. x \<noteq> CHR '':'') w) of
                       NaN \<Rightarrow> Some (take 16 v)
                     | Safe n \<Rightarrow>
                         Some (takeWhile (\<lambda>x. x \<noteq> CHR ''T'') v @ ''T''
                           @ takeWhile (\<lambda>x. x \<noteq> CHR '':'') (takeWhile (\<lambda>x. x \<noteq> CHR ''T'') u)
                           @ '':'' @ padStart 2 CHR ''0'' (decimal ((n div 15) * 15)))
                     | Other_number \<Rightarrow> None))))"
  unfolding alignToQuarter_def js_split_two Let_def ..

lemma minuteStr_of_shape:
  "minuteStr_of v =
     (if v = [] then None
      else
        (case dropWhile (\<lambda>x. x \<noteq> CHR ''T'') v of
           [] \<Rightarrow> None
         | x # u \<Rightarrow>
             if takeWhile (\<lambda>x. x \<noteq> CHR ''T'') u = [] then None
             else
               (case dropWhile (\<lambda>x. x \<noteq> CHR '':'') (takeWhile (\<lambda>x. x \<noteq> CHR ''T'') u) of
                  [] \<Rightarrow> None
                | y # w \<Rightarrow> Some (takeWhile (\<lambda>x. x \<noteq> CHR '':'') w))))"
  unfolding minuteStr_of_def js_split_two ..

lemma js_Number_Safe_digits: "js_Number m = Safe n \<Longrightarrow> is_digits m"
  by (simp add: js_Number_Safe)

lemma alignToQuarter_wellformed:
  assumes d: "CHR ''T'' \<notin> set d"
    and hT: "CHR ''T'' \<notin> set h" and hC: "CHR '':'' \<notin> set h"
    and m: "js_Number m = Safe n"
    and rest: "rest = [] \<or> hd rest = CHR '':'' \<or> hd rest = CHR ''T''"
  shows "alignToQuarter (d @ ''T'' @ h @ '':'' @ m @ rest)
       = Some (d @ ''T'' @ h @ '':'' @ padStart 2 CHR ''0'' (decimal ((n div 15) * 15)))"
proof -
  let ?P = "\<lambda>x. x \<noteq> CHR ''T''"
  let ?Q = "\<lambda>x. x \<noteq> CHR '':''"
  let ?u = "h @ CHR '':'' # m @ rest"
  let ?v = "d @ CHR ''T'' # ?u"
  have dg: "is_digits m" using m by (rule js_Number_Safe_digits)
  have dP: "\<And>x. x \<in> set d \<Longrightarrow> ?P x" using d by auto
  have hP: "\<And>x. x \<in> set h \<Longrightarrow> ?P x" using hT by auto
  have hQ: "\<And>x. x \<in> set h \<Longrightarrow> ?Q x" using hC by auto
  have mP: "\<And>x. x \<in> set m \<Longrightarrow> ?P x" using dg by (rule is_digits_no_T)
  have mQ: "\<And>x. x \<in> set m \<Longrightarrow> ?Q x" using dg by (rule is_digits_no_colon)
  have tail: "takeWhile ?Q (takeWhile ?P rest) = []"
    using rest by (cases rest) auto
  have drop_v: "dropWhile ?P ?v = CHR ''T'' # ?u"
    using dP by (simp add: dropWhile_append2)
  have take_v: "takeWhile ?P ?v = d"
    using dP by (simp add: takeWhile_append2)
  have mr: "takeWhile ?P (m @ rest) = m @ takeWhile ?P rest"
    using mP by (simp add: takeWhile_append2)
  have take_u: "takeWhile ?P ?u = h @ CHR '':'' # m @ takeWhile ?P rest"
    using hP mr by (simp add: takeWhile_append2)
  have drop_t: "dropWhile ?Q (h @ CHR '':'' # m @ takeWhile ?P rest)
      = CHR '':'' # m @ takeWhile ?P rest"
    using hQ by (simp add: dropWhile_append2)
  have take_t: "takeWhile ?Q (h @ CHR '':'' # m @ takeWhile ?P rest) = h"
    using hQ by (simp add: takeWhile_append2)
  have minute: "takeWhile ?Q (m @ takeWhile ?P rest) = m"
    using mQ tail by (simp add: takeWhile_append2)
  have "alignToQuarter ?v
      = Some (d @ ''T'' @ h @ '':'' @ padStart 2 CHR ''0'' (decimal ((n div 15) * 15)))"
    by (subst alignToQuarter_shape)
      (simp only: drop_v take_v take_u drop_t take_t minute m list.case js_number.case
        append_is_Nil_conv list.distinct if_False simp_thms)
  then show ?thesis by simp
qed

lemma takeWhile_take_commute: "takeWhile P (take k xs) = take k (takeWhile P xs)"
proof (induction xs arbitrary: k)
  case Nil
  show ?case by simp
next
  case (Cons x xs)
  show ?case by (cases k) (simp_all add: Cons.IH)
qed

lemma all_dropWhile_Nil: "(dropWhile P xs = []) = (\<forall>x \<in> set xs. P x)"
  by (simp add: dropWhile_eq_Nil_conv)

lemma alignToQuarter_no_separator:
  assumes "\<forall>x \<in> set v. x \<noteq> CHR ''T''"
  shows "alignToQuarter v = Some v"
proof -
  have "dropWhile (\<lambda>x. x \<noteq> CHR ''T'') v = []"
    using assms by (simp add: all_dropWhile_Nil)
  then show ?thesis
    by (subst alignToQuarter_shape) (simp only: list.case if_cancel)
qed

text \<open>
  The cut of the \<open>slice\<close> branch taken for a time part without a colon: the piece after
  the first \<open>T\<close> of the cut string is a prefix of the old one, so the cut string is
  returned as it is.
\<close>

lemma alignToQuarter_take_no_colon:
  assumes drop: "dropWhile (\<lambda>x. x \<noteq> CHR ''T'') v = x # u"
    and colon: "\<forall>y \<in> set (takeWhile (\<lambda>x. x \<noteq> CHR ''T'') u). y \<noteq> CHR '':''"
  shows "alignToQuarter (take 16 v) = Some (take 16 v)"
proof -
  let ?P = "\<lambda>x. x \<noteq> CHR ''T''"
  let ?Q = "\<lambda>x. x \<noteq> CHR '':''"
  from drop obtain d where v: "v = d @ CHR ''T'' # u" and dP: "\<And>y. y \<in> set d \<Longrightarrow> ?P y"
    by (auto simp: dropWhile_eq_Cons_conv dest: set_takeWhileD)
  show ?thesis
  proof (cases "16 \<le> length d")
    case True
    then have "take 16 v = take 16 d" unfolding v by simp
    moreover have "\<forall>y \<in> set (take 16 d). y \<noteq> CHR ''T''"
      using dP by (auto dest: in_set_takeD)
    ultimately show ?thesis by (simp add: alignToQuarter_no_separator)
  next
    case False
    define k where "k = 15 - length d"
    define w where "w = d @ CHR ''T'' # take k u"
    from False have cut: "take 16 v = w"
      unfolding v w_def k_def by (simp add: take_Cons')
    have len: "take 16 w = w"
      using False by (simp add: w_def k_def)
    have ne: "w \<noteq> []" by (simp add: w_def)
    have drop': "dropWhile ?P w = CHR ''T'' # take k u"
      unfolding w_def using dP by (simp add: dropWhile_append2)
    have t': "takeWhile ?P (take k u) = take k (takeWhile ?P u)"
      by (rule takeWhile_take_commute)
    have "\<forall>y \<in> set (take k (takeWhile ?P u)). ?Q y"
      using colon by (auto dest: in_set_takeD)
    then have noc: "dropWhile ?Q (take k (takeWhile ?P u)) = []"
      by (simp add: all_dropWhile_Nil)
    have "alignToQuarter w = Some w"
      by (subst alignToQuarter_shape)
        (simp only: ne drop' t' noc len list.case if_False if_cancel)
    then show ?thesis by (simp only: cut)
  qed
qed

lemma alignToQuarter_twice:
  assumes "\<forall>m. minuteStr_of v = Some m \<longrightarrow> is_digits m \<and> decimal_value m \<le> MAX_SAFE_INTEGER"
  shows "\<exists>r. alignToQuarter v = Some r \<and> alignToQuarter r = Some r"
proof -
  let ?P = "\<lambda>x. x \<noteq> CHR ''T''"
  let ?Q = "\<lambda>x. x \<noteq> CHR '':''"
  show ?thesis
  proof (cases "v = []")
    case True
    then show ?thesis by (simp add: alignToQuarter_def)
  next
    case ne: False
    show ?thesis
    proof (cases "dropWhile ?P v")
      case Nil
      have "alignToQuarter v = Some v"
        by (subst alignToQuarter_shape) (simp only: Nil list.case if_cancel)
      then show ?thesis by simp
    next
      case (Cons x u)
      show ?thesis
      proof (cases "takeWhile ?P u = []")
        case True
        have "alignToQuarter v = Some v"
          by (subst alignToQuarter_shape)
            (simp only: Cons True list.case simp_thms if_True if_cancel)
        then show ?thesis by simp
      next
        case t: False
        show ?thesis
        proof (cases "dropWhile ?Q (takeWhile ?P u)")
          case Nil
          have cut: "alignToQuarter v = Some (take 16 v)"
            by (subst alignToQuarter_shape) (simp only: ne Cons t Nil list.case if_False)
          have "\<forall>y \<in> set (takeWhile ?P u). y \<noteq> CHR '':''"
            using Nil by (simp add: all_dropWhile_Nil)
          with Cons have "alignToQuarter (take 16 v) = Some (take 16 v)"
            by (rule alignToQuarter_take_no_colon)
          with cut show ?thesis by simp
        next
          case (Cons y w)
          note colon = this
          have "minuteStr_of v = Some (takeWhile ?Q w)"
            by (subst minuteStr_of_shape)
              (simp only: ne \<open>dropWhile ?P v = x # u\<close> t colon list.case if_False)
          with assms have
            "is_digits (takeWhile ?Q w) \<and> decimal_value (takeWhile ?Q w) \<le> MAX_SAFE_INTEGER"
            by simp
          then obtain n where n: "js_Number (takeWhile ?Q w) = Safe n"
            and small: "n \<le> MAX_SAFE_INTEGER"
            by (simp add: js_Number_Safe)
          let ?d = "takeWhile ?P v"
          let ?h = "takeWhile ?Q (takeWhile ?P u)"
          let ?m = "padStart 2 CHR ''0'' (decimal ((n div 15) * 15))"
          have val: "alignToQuarter v = Some (?d @ ''T'' @ ?h @ '':'' @ ?m)"
            by (subst alignToQuarter_shape)
              (simp only: ne \<open>dropWhile ?P v = x # u\<close> t colon n list.case js_number.case
                if_False)
          have d: "CHR ''T'' \<notin> set ?d" by (auto dest: set_takeWhileD)
          have hC: "CHR '':'' \<notin> set ?h" by (auto dest: set_takeWhileD)
          have hT: "CHR ''T'' \<notin> set ?h" by (auto dest!: set_takeWhileD)
          have "(n div 15) * 15 \<le> n" by simp
          then have "(n div 15) * 15 \<le> MAX_SAFE_INTEGER" using small by (rule le_trans)
          then have m: "js_Number ?m = Safe ((n div 15) * 15)" by (rule js_Number_padStart)
          have "alignToQuarter (?d @ ''T'' @ ?h @ '':'' @ ?m @ [])
              = Some (?d @ ''T'' @ ?h @ '':''
                  @ padStart 2 CHR ''0'' (decimal ((((n div 15) * 15) div 15) * 15)))"
            using d hT hC m by (rule alignToQuarter_wellformed) simp
          then have "alignToQuarter (?d @ ''T'' @ ?h @ '':'' @ ?m)
              = Some (?d @ ''T'' @ ?h @ '':'' @ ?m)"
            by simp
          with val show ?thesis by simp
        qed
      qed
    qed
  qed
qed

lemma minuteStr_of_no_separator:
  assumes "\<forall>x \<in> set v. x \<noteq> CHR ''T''"
  shows "minuteStr_of v = None"
proof -
  have "dropWhile (\<lambda>x. x \<noteq> CHR ''T'') v = []"
    using assms by (simp add: all_dropWhile_Nil)
  then show ?thesis
    by (subst minuteStr_of_shape) (simp only: list.case if_cancel)
qed

text \<open>
  The first sixteen characters of a string of the form of \<open>toISOString\<close>: whatever the
  length of the date part, the minute field that \<open>alignToQuarter\<close> reads in them, if it
  reads one, is a prefix of the minute digits.
\<close>

lemma minuteStr_of_iso_prefix:
  assumes D: "CHR ''T'' \<notin> set D" and hh: "is_digits hh" and mm: "is_digits mm"
    and short: "length mm \<le> 15"
    and R: "CHR ''T'' \<notin> set R"
    and got: "minuteStr_of (take 16 (D @ ''T'' @ hh @ '':'' @ mm @ '':'' @ R)) = Some m"
  shows "is_digits m \<and> decimal_value m \<le> MAX_SAFE_INTEGER"
proof -
  let ?P = "\<lambda>x. x \<noteq> CHR ''T''"
  let ?Q = "\<lambda>x. x \<noteq> CHR '':''"
  let ?U2 = "mm @ CHR '':'' # R"
  let ?U = "hh @ CHR '':'' # ?U2"
  have DP: "\<And>x. x \<in> set D \<Longrightarrow> ?P x" using D by auto
  have UP: "\<forall>x \<in> set ?U. ?P x"
    using R is_digits_no_T [OF hh] is_digits_no_T [OF mm] by auto
  have hQ: "\<And>x. x \<in> set hh \<Longrightarrow> ?Q x" using hh by (rule is_digits_no_colon)
  have mQ: "\<And>x. x \<in> set mm \<Longrightarrow> ?Q x" using mm by (rule is_digits_no_colon)
  show ?thesis
  proof (cases "16 \<le> length D")
    case True
    then have "take 16 (D @ ''T'' @ hh @ '':'' @ mm @ '':'' @ R) = take 16 D" by simp
    moreover have "\<forall>y \<in> set (take 16 D). y \<noteq> CHR ''T''"
      using DP by (auto dest: in_set_takeD)
    ultimately have "minuteStr_of (take 16 (D @ ''T'' @ hh @ '':'' @ mm @ '':'' @ R)) = None"
      by (simp add: minuteStr_of_no_separator)
    with got show ?thesis by simp
  next
    case False
    define k where "k = 15 - length D"
    define w where "w = D @ CHR ''T'' # take k ?U"
    from False have cut: "take 16 (D @ ''T'' @ hh @ '':'' @ mm @ '':'' @ R) = w"
      unfolding w_def k_def by (simp add: take_Cons')
    have ne: "w \<noteq> []" by (simp add: w_def)
    have drop: "dropWhile ?P w = CHR ''T'' # take k ?U"
      unfolding w_def using DP by (simp add: dropWhile_append2)
    have "takeWhile ?P ?U = ?U"
      using UP by (simp only: takeWhile_eq_all_conv)
    then have t: "takeWhile ?P (take k ?U) = take k ?U"
      by (simp only: takeWhile_take_commute)
    show ?thesis
    proof (cases "k \<le> length hh")
      case True
      then have "take k ?U = take k hh" by simp
      moreover have "\<forall>y \<in> set (take k hh). ?Q y"
        using hQ by (auto dest: in_set_takeD)
      ultimately have noc: "dropWhile ?Q (take k ?U) = []"
        by (simp add: all_dropWhile_Nil)
      have "minuteStr_of w = None"
        by (subst minuteStr_of_shape) (simp only: drop t noc list.case if_cancel)
      with got cut show ?thesis by simp
    next
      case False
      define k2 where "k2 = k - length hh - 1"
      from False have tk: "take k ?U = hh @ CHR '':'' # take k2 ?U2"
        unfolding k2_def by (simp add: take_Cons')
      have tne: "take k ?U \<noteq> []" unfolding tk by simp
      have dq: "dropWhile ?Q (take k ?U) = CHR '':'' # take k2 ?U2"
        unfolding tk using hQ by (simp add: dropWhile_append2)
      have "takeWhile ?Q ?U2 = mm"
        using mQ by (simp add: takeWhile_append2)
      then have tq: "takeWhile ?Q (take k2 ?U2) = take k2 mm"
        by (simp only: takeWhile_take_commute)
      have "minuteStr_of w = Some (take k2 mm)"
        by (subst minuteStr_of_shape)
          (simp only: ne drop t tne dq tq list.case if_False)
      with got cut have "m = take k2 mm" by simp
      moreover have "is_digits (take k2 mm)" using mm by (rule is_digits_take)
      moreover have "decimal_value (take k2 mm) \<le> MAX_SAFE_INTEGER"
        using short by (intro decimal_value_short) simp
      ultimately show ?thesis by simp
    qed
  qed
qed

section \<open>Rounding the clock up to a quarter\<close>

lemma LocalTime_UTC: "LocalTime tz (UTC tz y) = y"
  by (simp add: LocalTime_def UTC_def)

lemma LocalTime_setMinutes:
  "LocalTime tz (setMinutes tz t m)
     = LocalTime tz t - MinFromTime (LocalTime tz t) * 60000 + m * 60000"
  by (simp add: setMinutes_def Let_def LocalTime_UTC)

lemma LocalTime_setSeconds:
  "LocalTime tz (setSeconds tz t 0 0) = LocalTime tz t - LocalTime tz t mod 60000"
  by (simp add: setSeconds_def Let_def LocalTime_UTC)

lemma roundedNow_local:
  "LocalTime tz (roundedNow tz now) =
     LocalTime tz now - LocalTime tz now mod 60000
       + (if getMinutes tz now mod 15 = 0 then 15 else 15 - getMinutes tz now mod 15) * 60000"
  by (simp add: roundedNow_def Let_def LocalTime_setSeconds LocalTime_setMinutes getMinutes_def
      algebra_simps)

lemma quarter_fields:
  fixes l :: int
  defines "inc \<equiv> (if MinFromTime l mod 15 = 0 then 15 else 15 - MinFromTime l mod 15)"
  defines "l' \<equiv> l - l mod 60000 + inc * 60000"
  shows "MinFromTime l' = (MinFromTime l + inc) mod 60"
    and "MinFromTime l' mod 15 = 0" and "SecFromTime l' = 0" and "msFromTime l' = 0"
    and "l < l'" and "l' \<le> l + 15 * 60000" and "l' mod (15 * 60000) = 0"
    and "0 \<le> MinFromTime l'" and "MinFromTime l' < 60"
proof -
  define q where "q = l div 60000"
  define r where "r = l mod 60000"
  define b where "b = q mod 15"
  have l: "l = 60000 * q + r" by (simp add: q_def r_def)
  have r: "0 \<le> r" "r < 60000" by (simp_all add: r_def)
  have b: "0 \<le> b" "b < 15" by (simp_all add: b_def)
  have "MinFromTime l mod 15 = b"
    by (simp add: MinFromTime_def q_def b_def mod_mod_cancel)
  then have inc_b: "inc = (if b = 0 then 15 else 15 - b)" by (simp add: inc_def)
  have inc: "1 \<le> inc" "inc \<le> 15"
    using b by (simp_all add: inc_b)
  have "(q + inc) mod 15 = (b + inc) mod 15"
    by (simp add: b_def mod_add_left_eq)
  also have "\<dots> = 0" using b by (simp add: inc_b)
  finally have q15: "(q + inc) mod 15 = 0" .
  have l': "l' = 60000 * (q + inc)"
    unfolding l'_def using l r by (simp add: r_def algebra_simps)
  have d: "l' div 60000 = q + inc" unfolding l' by simp
  show m': "MinFromTime l' = (MinFromTime l + inc) mod 60"
    unfolding MinFromTime_def d q_def [symmetric] by (simp add: mod_add_left_eq)
  have "MinFromTime l' mod 15 = (q + inc) mod 15"
    unfolding MinFromTime_def d by (simp add: mod_mod_cancel)
  then show "MinFromTime l' mod 15 = 0" using q15 by simp
  have "l' = 1000 * (60 * (q + inc))" unfolding l' by simp
  then have "l' div 1000 = 60 * (q + inc)" and "l' mod 1000 = 0" by simp_all
  then show "SecFromTime l' = 0" and "msFromTime l' = 0"
    by (simp_all add: SecFromTime_def msFromTime_def)
  show "l < l'" unfolding l' l using r inc by simp
  show "l' \<le> l + 15 * 60000" unfolding l' l using r inc by simp
  from q15 obtain k where "q + inc = 15 * k" by (auto simp: mod_eq_0_iff_dvd)
  then have "l' = (15 * 60000) * k" unfolding l' by simp
  then show "l' mod (15 * 60000) = 0" by simp
  show "0 \<le> MinFromTime l'" "MinFromTime l' < 60" by (simp_all add: MinFromTime_def)
qed

lemma length_pad_2: "0 \<le> n \<Longrightarrow> n < 100 \<Longrightarrow> length (pad 2 n) = 2"
proof -
  assume n: "0 \<le> n" "n < 100"
  show ?thesis
  proof (cases "nat n < 10")
    case True
    then have "decimal (nat n) = [digit_char (nat n)]"
      by (subst decimal.simps) simp
    then show ?thesis by (simp add: pad_def padStart_def)
  next
    case False
    moreover from n have "nat n div 10 < 10" by simp
    ultimately have "decimal (nat n) = [digit_char (nat n div 10), digit_char (nat n mod 10)]"
      by (subst decimal.simps, subst decimal.simps) simp
    then show ?thesis by (simp add: pad_def padStart_def)
  qed
qed

lemma is_digits_pad: "is_digits (pad k n)"
  unfolding pad_def by (rule is_digits_padStart) (rule is_digits_decimal)

lemma toISOString_tail_no_T:
  "CHR ''T'' \<notin> set (pad 2 s @ ''.'' @ pad 3 ms @ ''Z'')"
  using is_digits_no_T [OF is_digits_pad [of 2 s]] is_digits_no_T [OF is_digits_pad [of 3 ms]]
  by auto

lemma setDefaultReservationTime_local:
  "setDefaultReservationTime isoDate tz now =
     alignToQuarter (take 16 (toISOString isoDate (LocalTime tz (roundedNow tz now))))"
  by (simp add: setDefaultReservationTime_def Let_def LocalTime_def)

section \<open>The default start time is the next quarter\<close>

text \<open>
  C6. For every current time and zone offset, with \<open>l\<close> the local clock and \<open>l'\<close> the
  local clock of the suggested default: \<open>l'\<close> is \<open>l\<close> with seconds and milliseconds
  zeroed and \<open>increment\<close> minutes added, where \<open>increment\<close> is 15 - (minutes mod 15),
  or 15 when minutes mod 15 = 0. So the minute of \<open>l'\<close> is (minutes + increment) mod 60,
  a multiple of 15; its seconds and milliseconds are 0; \<open>l'\<close> is the first quarter-hour
  boundary after \<open>l\<close>; minute 37 gives minute 45. When the date part is rendered in ten
  characters without a \<open>T\<close>, the text put into the input is that date, \<open>T\<close>, and the
  hour and minute of \<open>l'\<close> in two digits each.
\<close>

theorem setDefaultReservationTime_rounds_up:
  fixes tz now :: int
  defines "l \<equiv> LocalTime tz now"
  defines "minutes \<equiv> getMinutes tz now"
  defines "increment \<equiv> (if minutes mod 15 = 0 then 15 else 15 - minutes mod 15)"
  defines "l' \<equiv> LocalTime tz (roundedNow tz now)"
  shows "l' = l - l mod 60000 + increment * 60000
       \<and> MinFromTime l' = (minutes + increment) mod 60
       \<and> MinFromTime l' mod 15 = 0 \<and> SecFromTime l' = 0 \<and> msFromTime l' = 0
       \<and> l < l' \<and> l' \<le> l + 15 * 60000 \<and> l' mod (15 * 60000) = 0
       \<and> (minutes = 37 \<longrightarrow> MinFromTime l' = 45)
       \<and> (length (isoDate (l' div 86400000)) = 10 \<and> CHR ''T'' \<notin> set (isoDate (l' div 86400000))
            \<longrightarrow> setDefaultReservationTime isoDate tz now
                = Some (isoDate (l' div 86400000) @ ''T'' @ pad 2 (HourFromTime l') @ '':''
                    @ pad 2 (MinFromTime l')))"
proof -
  have eq: "l' = l - l mod 60000 + increment * 60000"
    unfolding l'_def l_def increment_def minutes_def by (rule roundedNow_local)
  have mins: "minutes = MinFromTime l"
    by (simp add: minutes_def getMinutes_def l_def)
  have eq2: "l' = l - l mod 60000
      + (if MinFromTime l mod 15 = 0 then 15 else 15 - MinFromTime l mod 15) * 60000"
    using eq by (simp add: increment_def mins)
  note q = quarter_fields [of l, folded eq2]
  have q1: "MinFromTime l' = (minutes + increment) mod 60"
    using q(1) by (simp add: increment_def mins)
  have m37: "MinFromTime l' = 45" if "minutes = 37"
    using q1 that by (simp add: increment_def)
  have input_value: "setDefaultReservationTime isoDate tz now
      = Some (isoDate (l' div 86400000) @ ''T'' @ pad 2 (HourFromTime l') @ '':''
          @ pad 2 (MinFromTime l'))"
    if len: "length (isoDate (l' div 86400000)) = 10"
      and noT: "CHR ''T'' \<notin> set (isoDate (l' div 86400000))"
  proof -
    let ?D = "isoDate (l' div 86400000)"
    let ?H = "pad 2 (HourFromTime l')"
    let ?M = "pad 2 (MinFromTime l')"
    have lh: "length ?H = 2"
      by (rule length_pad_2) (simp_all add: HourFromTime_def)
    have lm: "length ?M = 2"
      using q(8,9) by (intro length_pad_2) simp_all
    have cut: "take 16 (toISOString isoDate l') = ?D @ ''T'' @ ?H @ '':'' @ ?M @ []"
      by (simp add: toISOString_def len lh lm)
    have "nat (MinFromTime l') < 60" using q(9) by simp
    then have "nat (MinFromTime l') \<le> MAX_SAFE_INTEGER" by (simp add: MAX_SAFE_INTEGER_def)
    then have n: "js_Number ?M = Safe (nat (MinFromTime l'))"
      unfolding pad_def by (rule js_Number_padStart)
    have "nat (MinFromTime l' mod 15) = nat (MinFromTime l') mod nat 15"
      using q(8) by (intro nat_mod_distrib) simp_all
    then have "nat (MinFromTime l') mod 15 = 0"
      using q(2) by simp
    then have fx: "(nat (MinFromTime l') div 15) * 15 = nat (MinFromTime l')"
      using div_mult_mod_eq [of "nat (MinFromTime l')" 15] by simp
    have "alignToQuarter (?D @ ''T'' @ ?H @ '':'' @ ?M @ [])
        = Some (?D @ ''T'' @ ?H @ '':''
            @ padStart 2 CHR ''0'' (decimal ((nat (MinFromTime l') div 15) * 15)))"
      using noT is_digits_no_T [OF is_digits_pad [of 2 "HourFromTime l'"]]
        is_digits_no_colon [OF is_digits_pad [of 2 "HourFromTime l'"]] n
      by (intro alignToQuarter_wellformed) auto
    then show ?thesis
      unfolding setDefaultReservationTime_local l'_def [symmetric] cut fx
      by (simp add: pad_def)
  qed
  show ?thesis
    using eq q1 q(2-7) m37 input_value by blast
qed

theorem setDefaultReservationTime_rounds_up_witness:
  "getMinutes (- 480) 1714567061000 = 37
   \<and> MinFromTime (LocalTime (- 480) (roundedNow (- 480) 1714567061000)) = 45
   \<and> roundedNow (- 480) 1714567061000 = 1714567500000
   \<and> length ''2024-05-01'' = 10
   \<and> setDefaultReservationTime (\<lambda>day. ''2024-05-01'') (- 480) 1714567061000
       = Some ''2024-05-01T20:45''"
proof -
  have r: "roundedNow (- 480) 1714567061000 = 1714567500000"
    by (simp add: roundedNow_def getMinutes_def LocalTime_def UTC_def MinFromTime_def
        setMinutes_def setSeconds_def)
  have p: "pad 2 20 = ''20''" "pad 2 45 = ''45''"
    by (simp_all add: pad_def padStart_def decimal.simps digit_char_def)
  show ?thesis
    using setDefaultReservationTime_rounds_up [of "- 480" 1714567061000 "\<lambda>day. ''2024-05-01''"]
    by (simp add: r p getMinutes_def LocalTime_def MinFromTime_def HourFromTime_def)
qed

section \<open>Normalisation on submission\<close>

text \<open>
  C7. For every timestamp string of the form date, \<open>T\<close>, hour, colon, minute, then
  nothing or a colon and more (the value of a date-and-time input, with or without
  seconds), where the minute field consists of decimal digits and its value \<open>n\<close> is
  at most 2^53 - 1 (the range in which the script's double arithmetic is exact; the
  minute of a timestamp is below 60): \<open>alignToQuarter\<close> gives the same date and hour with the
  minute floor (n / 15) * 15, the nearest multiple of 15 at or below \<open>n\<close>, in two
  digits; the submit handler sends that text as \<open>start_time\<close>.
  \<open>2024-05-01T12:37\<close> becomes \<open>2024-05-01T12:30\<close>.
\<close>

theorem alignToQuarter_rounds_down:
  assumes "CHR ''T'' \<notin> set d" and "CHR ''T'' \<notin> set h" and "CHR '':'' \<notin> set h"
    and "is_digits m" and "decimal_value m = n" and "n \<le> MAX_SAFE_INTEGER"
    and "rest = [] \<or> hd rest = CHR '':''"
  shows "alignToQuarter (d @ ''T'' @ h @ '':'' @ m @ rest)
         = Some (d @ ''T'' @ h @ '':'' @ padStart 2 CHR ''0'' (decimal ((n div 15) * 15)))
       \<and> submit_start_time (d @ ''T'' @ h @ '':'' @ m @ rest) True
         = Some (Sent (d @ ''T'' @ h @ '':'' @ padStart 2 CHR ''0'' (decimal ((n div 15) * 15))))
       \<and> (n div 15) * 15 \<le> n \<and> n < (n div 15) * 15 + 15 \<and> 15 dvd (n div 15) * 15
       \<and> alignToQuarter ''2024-05-01T12:37'' = Some ''2024-05-01T12:30''"
proof -
  have num: "js_Number m = Safe n"
    using assms(4-6) by (simp add: js_Number_Safe)
  have a: "alignToQuarter (d @ ''T'' @ h @ '':'' @ m @ rest)
         = Some (d @ ''T'' @ h @ '':'' @ padStart 2 CHR ''0'' (decimal ((n div 15) * 15)))"
    using assms(1-3) num assms(7) by (intro alignToQuarter_wellformed) auto
  have s: "submit_start_time (d @ ''T'' @ h @ '':'' @ m @ rest) True
         = Some (Sent (d @ ''T'' @ h @ '':'' @ padStart 2 CHR ''0'' (decimal ((n div 15) * 15))))"
    unfolding submit_start_time_def a by simp
  have e: "alignToQuarter ''2024-05-01T12:37'' = Some ''2024-05-01T12:30''"
    by (simp add: alignToQuarter_def js_Number_def is_digits_def digit_val_def decimal_value_def
        MAX_SAFE_INTEGER_def
        padStart_def decimal.simps digit_char_def)
  have "(n div 15) * 15 \<le> n \<and> n < (n div 15) * 15 + 15 \<and> 15 dvd (n div 15) * 15"
    by presburger
  with a s e show ?thesis by simp
qed

theorem alignToQuarter_rounds_down_witness:
  "CHR ''T'' \<notin> set ''2024-05-01'' \<and> CHR ''T'' \<notin> set ''12'' \<and> CHR '':'' \<notin> set ''12''
   \<and> is_digits ''37'' \<and> decimal_value ''37'' = 37 \<and> 37 \<le> MAX_SAFE_INTEGER
   \<and> alignToQuarter ''2024-05-01T12:37:11'' = Some ''2024-05-01T12:30''
   \<and> submit_start_time ''2024-05-01T12:37:11'' True = Some (Sent ''2024-05-01T12:30'')"
proof -
  have dg: "is_digits ''37''"
    by (simp add: is_digits_def digit_val_def)
  have n: "decimal_value ''37'' = 37"
    by (simp add: decimal_value_def digit_val_def)
  have p: "padStart 2 CHR ''0'' (decimal ((37 div 15) * 15)) = ''30''"
    by (simp add: padStart_def decimal.simps digit_char_def)
  have b: "37 \<le> MAX_SAFE_INTEGER"
    by (simp add: MAX_SAFE_INTEGER_def)
  show ?thesis
    using alignToQuarter_rounds_down [of "''2024-05-01''" "''12''" "''37''" 37 "'':11''"] dg n p b
    by simp
qed

section \<open>Applying alignToQuarter twice\<close>

text \<open>
  C10, as stated, fails: \<open>alignToQuarter\<close> is not idempotent on every string. The
  minute field \<open>37Z\<close> is not a number, so the first application only cuts the string to
  sixteen characters, which drops the \<open>Z\<close>; the second one then reads the minute 37 and
  rounds it down.
\<close>

theorem alignToQuarter_idempotent_counterexample:
  "alignToQuarter ''2024-05-01T12:37Z'' = Some ''2024-05-01T12:37''
   \<and> alignToQuarter ''2024-05-01T12:37'' = Some ''2024-05-01T12:30''
   \<and> alignToQuarter ''2024-05-01T12:37'' \<noteq> alignToQuarter ''2024-05-01T12:37Z''"
  by (simp add: alignToQuarter_def js_Number_def is_digits_def digit_val_def decimal_value_def
        MAX_SAFE_INTEGER_def
      never_numeric_def padStart_def decimal.simps digit_char_def)

text \<open>
  C10, amended. For every string \<open>v\<close> whose minute field, when \<open>alignToQuarter\<close> reads
  one, consists of decimal digits with a value of at most 2^53 - 1 (the range in which the
  script's double arithmetic is exact), \<open>alignToQuarter\<close> returns a string \<open>r\<close> and
  returns \<open>r\<close> again when applied to \<open>r\<close>; strings without a time part and strings whose
  time part has no colon are among them. The default time produced by
  \<open>setDefaultReservationTime\<close> is such a fixed point of \<open>alignToQuarter\<close>, whenever the
  rendered date part has no \<open>T\<close> in it.
\<close>

theorem alignToQuarter_idempotent:
  "((\<forall>m. minuteStr_of v = Some m \<longrightarrow> is_digits m \<and> decimal_value m \<le> MAX_SAFE_INTEGER)
      \<longrightarrow> (\<exists>r. alignToQuarter v = Some r \<and> alignToQuarter r = Some r))
   \<and> (CHR ''T'' \<notin> set (isoDate (LocalTime tz (roundedNow tz now) div 86400000))
      \<longrightarrow> (\<exists>r. setDefaultReservationTime isoDate tz now = Some r \<and> alignToQuarter r = Some r))"
proof (intro conjI impI)
  assume "\<forall>m. minuteStr_of v = Some m \<longrightarrow> is_digits m \<and> decimal_value m \<le> MAX_SAFE_INTEGER"
  then show "\<exists>r. alignToQuarter v = Some r \<and> alignToQuarter r = Some r"
    by (rule alignToQuarter_twice)
next
  let ?l = "LocalTime tz (roundedNow tz now)"
  assume D: "CHR ''T'' \<notin> set (isoDate (?l div 86400000))"
  let ?local = "take 16 (toISOString isoDate ?l)"
  have form: "toISOString isoDate ?l
      = isoDate (?l div 86400000) @ ''T'' @ pad 2 (HourFromTime ?l) @ '':''
          @ pad 2 (MinFromTime ?l) @ '':''
          @ (pad 2 (SecFromTime ?l) @ ''.'' @ pad 3 (msFromTime ?l) @ ''Z'')"
    by (simp add: toISOString_def)
  have "length (pad 2 (MinFromTime ?l)) = 2"
    by (rule length_pad_2) (simp_all add: MinFromTime_def)
  then have short: "length (pad 2 (MinFromTime ?l)) \<le> 15" by simp
  have "\<forall>m. minuteStr_of ?local = Some m \<longrightarrow> is_digits m \<and> decimal_value m \<le> MAX_SAFE_INTEGER"
    unfolding form
    using minuteStr_of_iso_prefix [OF D is_digits_pad is_digits_pad short toISOString_tail_no_T]
    by blast
  then have "\<exists>r. alignToQuarter ?local = Some r \<and> alignToQuarter r = Some r"
    by (rule alignToQuarter_twice)
  then show "\<exists>r. setDefaultReservationTime isoDate tz now = Some r \<and> alignToQuarter r = Some r"
    by (simp only: setDefaultReservationTime_local)
qed

theorem alignToQuarter_idempotent_witness:
  "minuteStr_of ''2024-05-01T12:37:11'' = Some ''37''
   \<and> is_digits ''37'' \<and> decimal_value ''37'' \<le> MAX_SAFE_INTEGER
   \<and> alignToQuarter ''2024-05-01T12:37:11'' = Some ''2024-05-01T12:30''
   \<and> alignToQuarter ''2024-05-01T12:30'' = Some ''2024-05-01T12:30''
   \<and> CHR ''T'' \<notin> set ''2024-05-01''
   \<and> setDefaultReservationTime (\<lambda>day. ''2024-05-01'') (- 480) 1714567061000
       = Some ''2024-05-01T20:45''
   \<and> alignToQuarter ''2024-05-01T20:45'' = Some ''2024-05-01T20:45''"
proof -
  have m: "minuteStr_of ''2024-05-01T12:37:11'' = Some ''37''"
    by (simp add: minuteStr_of_def)
  have d: "is_digits ''37''" "decimal_value ''37'' \<le> MAX_SAFE_INTEGER"
    by (simp_all add: is_digits_def digit_val_def decimal_value_def MAX_SAFE_INTEGER_def)
  have a: "alignToQuarter ''2024-05-01T12:37:11'' = Some ''2024-05-01T12:30''"
    by (simp add: alignToQuarter_def js_Number_def is_digits_def digit_val_def decimal_value_def
        MAX_SAFE_INTEGER_def padStart_def decimal.simps digit_char_def)
  have r: "roundedNow (- 480) 1714567061000 = 1714567500000"
    by (simp add: roundedNow_def getMinutes_def LocalTime_def UTC_def MinFromTime_def
        setMinutes_def setSeconds_def)
  have iso: "take 16 (toISOString (\<lambda>day. ''2024-05-01'') 1714596300000) = ''2024-05-01T20:45''"
    by (simp add: toISOString_def pad_def padStart_def HourFromTime_def MinFromTime_def
        SecFromTime_def msFromTime_def decimal.simps digit_char_def)
  have q: "alignToQuarter ''2024-05-01T20:45'' = Some ''2024-05-01T20:45''"
    by (simp add: alignToQuarter_def js_Number_def is_digits_def digit_val_def decimal_value_def
        MAX_SAFE_INTEGER_def padStart_def decimal.simps digit_char_def)
  have s: "setDefaultReservationTime (\<lambda>day. ''2024-05-01'') (- 480) 1714567061000
       = Some ''2024-05-01T20:45''"
    by (simp add: setDefaultReservationTime_def r iso q)
  from alignToQuarter_idempotent [of "''2024-05-01T12:37:11''" "\<lambda>day. ''2024-05-01''"
        "- 480" 1714567061000]
  have "\<exists>r. alignToQuarter ''2024-05-01T12:37:11'' = Some r \<and> alignToQuarter r = Some r"
    using m d by simp
  then have "alignToQuarter ''2024-05-01T12:30'' = Some ''2024-05-01T12:30''"
    unfolding a by simp
  with m d a s q show ?thesis by simp
qed

end
